theory Spec2Isabelle
  imports Complex_Main "HOL-Library.AList"
begin

section \<open>JavaScript values, strings and objects\<close>

text \<open>
  A JavaScript string is a sequence of UTF-16 code units; the step titles and the
  regular expressions of \<^verbatim>\<open>agent-store.ts\<close> go beyond ASCII, so a string is a list
  of code units here. \<open>js\<close> embeds an ASCII literal.
\<close>

type_synonym jsstring = "nat list"

definition js :: "string \<Rightarrow> jsstring" where
  "js s = map of_char s"

text \<open>
  The values \<^verbatim>\<open>JSON.parse\<close> returns. An object is the list of its own properties in
  JavaScript's own-key order.
\<close>

datatype jsval =
    JNull
  | JBool bool
  | JNum rat
  | JStr jsstring
  | JArr "jsval list"
  | JObj "(jsstring \<times> jsval) list"

type_synonym props = "(jsstring \<times> jsval) list"

datatype js_error = SyntaxError | TypeError

definition bind_res :: "js_error + 'a \<Rightarrow> ('a \<Rightarrow> js_error + 'b) \<Rightarrow> js_error + 'b" where
  "bind_res r f = (case r of Inl e \<Rightarrow> Inl e | Inr v \<Rightarrow> f v)"

text \<open>\<^verbatim>\<open>try { body } catch { handler }\<close>\<close>

definition try_catch :: "js_error + 'a \<Rightarrow> (js_error + 'a) \<Rightarrow> js_error + 'a" where
  "try_catch body handler = (case body of Inl e \<Rightarrow> handler | Inr v \<Rightarrow> Inr v)"

text \<open>
  Own-key order: array-index keys first, ascending, then the other keys in insertion
  order. \<open>is_array_index\<close> recognises a canonical decimal below \<open>2^32 - 1\<close>.
\<close>

definition is_digit :: "nat \<Rightarrow> bool" where
  "is_digit c = (48 \<le> c \<and> c \<le> 57)"

definition dec_value :: "jsstring \<Rightarrow> nat" where
  "dec_value s = foldl (\<lambda>a c. 10 * a + (c - 48)) 0 s"

definition is_array_index :: "jsstring \<Rightarrow> bool" where
  "is_array_index s =
     (s \<noteq> [] \<and> list_all is_digit s \<and> (s = [48] \<or> hd s \<noteq> 48) \<and> dec_value s \<le> 4294967294)"

fun obj_insert :: "jsstring \<Rightarrow> 'a \<Rightarrow> (jsstring \<times> 'a) list \<Rightarrow> (jsstring \<times> 'a) list" where
  "obj_insert k v [] = [(k, v)]"
| "obj_insert k v ((k', v') # r) =
     (if is_array_index k \<and> (\<not> is_array_index k' \<or> dec_value k < dec_value k')
      then (k, v) # (k', v') # r
      else (k', v') # obj_insert k v r)"

text \<open>\<^verbatim>\<open>o[k] = v\<close>: an existing property keeps its place, a new one is inserted in key order.\<close>

definition obj_set :: "jsstring \<Rightarrow> 'a \<Rightarrow> (jsstring \<times> 'a) list \<Rightarrow> (jsstring \<times> 'a) list" where
  "obj_set k v kvs =
     (case map_of kvs k of Some _ \<Rightarrow> AList.update k v kvs | None \<Rightarrow> obj_insert k v kvs)"

function dec_string :: "nat \<Rightarrow> jsstring" where
  "dec_string n = (if n < 10 then [48 + n] else dec_string (n div 10) @ [48 + n mod 10])"
  by pat_completeness auto
termination
  by (relation "measure id") auto

fun index_props :: "nat \<Rightarrow> jsval list \<Rightarrow> props" where
  "index_props i [] = []"
| "index_props i (v # vs) = (dec_string i, v) # index_props (Suc i) vs"

text \<open>
  \<^verbatim>\<open>{ ...v }\<close>: the own enumerable properties of \<open>v\<close>. An array spreads to its indices,
  a string to its code units, \<^verbatim>\<open>null\<close>, a number and a boolean to nothing.
\<close>

fun spread :: "jsval \<Rightarrow> props" where
  "spread (JObj kvs) = kvs"
| "spread (JArr vs) = index_props 0 vs"
| "spread (JStr s) = index_props 0 (map (\<lambda>c. JStr [c]) s)"
| "spread _ = []"

text \<open>
  \<^verbatim>\<open>v.k\<close> for the property names the source reads (content, isComplete, tool_name,
  step_label), none of which a string, an array, a number or a boolean has: \<open>None\<close> is
  \<^verbatim>\<open>undefined\<close>, and reading a property of \<^verbatim>\<open>null\<close> throws.
\<close>

fun get_prop :: "jsval \<Rightarrow> jsstring \<Rightarrow> js_error + jsval option" where
  "get_prop JNull k = Inl TypeError"
| "get_prop (JObj kvs) k = Inr (map_of kvs k)"
| "get_prop _ k = Inr None"

text \<open>\<^verbatim>\<open>a ?? d\<close>\<close>

fun nullish :: "jsval option \<Rightarrow> jsval \<Rightarrow> jsval" where
  "nullish None d = d"
| "nullish (Some JNull) d = d"
| "nullish (Some v) d = v"

fun truthy :: "jsval \<Rightarrow> bool" where
  "truthy JNull = False"
| "truthy (JBool b) = b"
| "truthy (JNum n) = (n \<noteq> 0)"
| "truthy (JStr s) = (s \<noteq> [])"
| "truthy _ = True"

text \<open>
  What the source takes from outside: \<^verbatim>\<open>JSON.parse\<close> (\<open>None\<close> when it throws its
  SyntaxError), \<^verbatim>\<open>JSON.stringify\<close>, the \<^verbatim>\<open>+\<close> of two values that are not both strings,
  and the constant \<^verbatim>\<open>AGENT_SECTION_COMPONENT_TYPE\<close> of \<^verbatim>\<open>@/constants/agent\<close>.
\<close>

record runtime =
  JSON_parse :: "jsstring \<Rightarrow> jsval option"
  JSON_stringify :: "jsval \<Rightarrow> jsstring"
  plus_coerced :: "jsval \<Rightarrow> jsval \<Rightarrow> jsval"
  AGENT_SECTION_COMPONENT_TYPE :: "jsstring list"

definition parse_json :: "runtime \<Rightarrow> jsstring \<Rightarrow> js_error + jsval" where
  "parse_json R s = (case JSON_parse R s of None \<Rightarrow> Inl SyntaxError | Some v \<Rightarrow> Inr v)"

fun js_plus :: "runtime \<Rightarrow> jsval \<Rightarrow> jsval \<Rightarrow> jsval" where
  "js_plus R (JStr a) (JStr b) = JStr (a @ b)"
| "js_plus R a b = plus_coerced R a b"

section \<open>The view model\<close>

text \<open>
  The data of an event: \<^verbatim>\<open>payload\<close> is the event's payload object; the fields the
  declarations type as strings are read with \<open>str_prop\<close>. The data has no
  \<^verbatim>\<open>component_type\<close> of its own, so the kind an item is built with is the one the
  processor writes before it spreads the data.
\<close>

record event_data =
  item_id :: jsstring
  conversation_id :: jsstring
  thread_id :: jsstring
  task_id :: jsstring
  role :: "jsstring option"
  payload :: props
  metadata :: "props option"

record ChatItem = event_data +
  component_type :: "jsstring option"

record TaskView =
  items :: "ChatItem list"

text \<open>\<^verbatim>\<open>tasks\<close> is read with \<^verbatim>\<open>Object.values\<close>, so its key order is kept.\<close>

record ThreadView =
  tasks :: "(jsstring \<times> TaskView) list"

record ConversationView =
  threads :: "jsstring \<rightharpoonup> ThreadView"
  sections :: "jsstring \<rightharpoonup> ThreadView"

type_synonym AgentConversationsStore = "jsstring \<rightharpoonup> ConversationView"

datatype merge_mode = Append | Replace | AppendReasoning

definition str_prop :: "props \<Rightarrow> jsstring \<Rightarrow> jsstring option" where
  "str_prop p k = (case map_of p k of Some (JStr s) \<Rightarrow> Some s | _ \<Rightarrow> None)"

definition content_of :: "'a event_data_scheme \<Rightarrow> jsstring option" where
  "content_of it = str_prop (payload it) (js ''content'')"

text \<open>
  \<^verbatim>\<open>hasContent\<close>: the guard \<^verbatim>\<open>item is ChatItem & { payload: { content: string } }\<close>;
  a content that is not a string is outside the declared type, and the statements below
  are about items whose content is a string or absent.
\<close>

definition hasContent :: "'a event_data_scheme \<Rightarrow> bool" where
  "hasContent it = (content_of it \<noteq> None)"

definition content_str :: "'a event_data_scheme \<Rightarrow> jsstring" where
  "content_str it = (case content_of it of Some s \<Rightarrow> s | None \<Rightarrow> [])"

text \<open>\<^verbatim>\<open>item.payload.content = s\<close>\<close>

definition set_content :: "jsstring \<Rightarrow> ChatItem \<Rightarrow> ChatItem" where
  "set_content s it = it\<lparr>payload := obj_set (js ''content'') (JStr s) (payload it)\<rparr>"

fun findIndex :: "('a \<Rightarrow> bool) \<Rightarrow> 'a list \<Rightarrow> nat option" where
  "findIndex P [] = None"
| "findIndex P (x # xs) = (if P x then Some 0 else map_option Suc (findIndex P xs))"

section \<open>Step-template heuristic\<close>

definition ANALYSIS_STEP_TITLES :: "jsstring list" where
  "ANALYSIS_STEP_TITLES =
     [[26500, 24314, 20998, 26512, 31574, 30053, 20219, 21153, 35268, 21010],
      [22522, 26412, 38754, 19982, 36130, 21153, 20581, 24247, 24230, 35843, 30740],
      [22522, 26412, 38754, 19982, 32929, 22522, 26412, 38754, 20998, 26512],
      [22810, 21608, 26399, 25216, 26415, 24418, 24577, 19982, 31609, 30721, 20998, 24067,
       30740, 31350],
      [24066, 22330, 24773, 32490, 19982, 36164, 37329, 21160, 24577, 30417, 25511],
      [23454, 26102, 36164, 35759, 19982, 37325, 22823, 20107, 39033, 25628, 23547]]"

definition ANALYSIS_OVERFLOW_STEP_TITLE :: jsstring where
  "ANALYSIS_OVERFLOW_STEP_TITLE = [26500, 24314, 20998, 26512, 31574, 30053]"

definition NEWS_STEP_TITLES :: "jsstring list" where
  "NEWS_STEP_TITLES =
     [[26816, 32034, 20170, 26085, 20840, 29699, 31185, 25216, 37325, 22823, 26032, 38395],
      [26816, 32034, 20170, 26085, 22269, 20869, 31185, 25216, 34892, 19994, 21450, 32, 65, 32,
       32929, 31185, 25216, 26495, 22359, 21160, 24577],
      [20998, 26512, 31185, 25216, 34892, 19994, 24066, 22330, 24773, 32490, 19982, 36164,
       37329, 27969, 21521]]"

datatype StepTemplateType = Analysis | News

definition STEP_TEMPLATE_START_TITLES :: "jsstring list" where
  "STEP_TEMPLATE_START_TITLES = [hd ANALYSIS_STEP_TITLES, hd NEWS_STEP_TITLES]"

text \<open>The alternatives of \<^verbatim>\<open>NEWS_QUERY_MARKER_REGEX\<close>; none of their code units has a case.\<close>

definition NEWS_QUERY_MARKERS :: "jsstring list" where
  "NEWS_QUERY_MARKERS =
     [[26032, 38395], [24555, 35759], [22836, 26465], [20170, 26085, 31185, 25216],
      [31185, 25216, 26032, 38395], [36130, 32463, 26032, 38395], [23454, 26102, 36164, 35759]]"

definition starts_with :: "jsstring \<Rightarrow> jsstring \<Rightarrow> bool" where
  "starts_with m s = (take (length m) s = m)"

fun contains :: "jsstring \<Rightarrow> jsstring \<Rightarrow> bool" where
  "contains m [] = (m = [])"
| "contains m (c # cs) = (starts_with m (c # cs) \<or> contains m cs)"

definition news_query_marker :: "jsstring \<Rightarrow> bool" where
  "news_query_marker s = list_ex (\<lambda>m. contains m s) NEWS_QUERY_MARKERS"

text \<open>\<^verbatim>\<open>\s\<close>, which is also what \<^verbatim>\<open>trim\<close> removes.\<close>

definition is_space :: "nat \<Rightarrow> bool" where
  "is_space c =
     (c \<in> set [9, 10, 11, 12, 13, 32, 160, 5760, 8232, 8233, 8239, 8287, 12288, 65279]
      \<or> (8192 \<le> c \<and> c \<le> 8202))"

definition trim :: "jsstring \<Rightarrow> jsstring" where
  "trim s = rev (dropWhile is_space (rev (dropWhile is_space s)))"

text \<open>The classes of the two patterns: a CJK ideograph (U+4E00 to U+9FFF) or an ASCII letter; and the same with \<^verbatim>\<open>0-9\<close>, U+00B7, \<^verbatim>\<open>-\<close> and \<^verbatim>\<open>\s\<close>.\<close>

definition name_start :: "nat \<Rightarrow> bool" where
  "name_start c = ((19968 \<le> c \<and> c \<le> 40959) \<or> (65 \<le> c \<and> c \<le> 90) \<or> (97 \<le> c \<and> c \<le> 122))"

definition name_char :: "nat \<Rightarrow> bool" where
  "name_char c = (name_start c \<or> is_digit c \<or> c = 183 \<or> c = 45 \<or> is_space c)"

text \<open>
  The lazy \<^verbatim>\<open>{1,30}?\<close>: one more character of the class at a time, up to 30, stopping at
  the first length after which the rest of the pattern (\<open>cont\<close>) matches.
\<close>

fun lazy_chars ::
    "(jsstring \<Rightarrow> 'a option) \<Rightarrow> nat \<Rightarrow> jsstring \<Rightarrow> jsstring \<Rightarrow> (jsstring \<times> 'a) option" where
  "lazy_chars cont 0 acc s = None"
| "lazy_chars cont (Suc n) acc [] = None"
| "lazy_chars cont (Suc n) acc (c # cs) =
     (if name_char c
      then (case cont cs of
              Some r \<Rightarrow> Some (acc @ [c], r)
            | None \<Rightarrow> lazy_chars cont n (acc @ [c]) cs)
      else None)"

text \<open>\<^verbatim>\<open>String.prototype.match\<close>: the leftmost start at which the pattern matches.\<close>

fun name_search :: "(jsstring \<Rightarrow> 'a option) \<Rightarrow> jsstring \<Rightarrow> (jsstring \<times> 'a) option" where
  "name_search cont [] = None"
| "name_search cont (c # cs) =
     (case (if name_start c then lazy_chars cont 30 [c] cs else None) of
        Some r \<Rightarrow> Some r
      | None \<Rightarrow> name_search cont cs)"

text \<open>\<^verbatim>\<open>\s*[(]\s*\d{4,6}\s*[)]\<close>, where each bracket also has the fullwidth U+FF08 or U+FF09.\<close>

definition code_tail :: "jsstring \<Rightarrow> unit option" where
  "code_tail s =
     (case dropWhile is_space s of
        [] \<Rightarrow> None
      | c # s2 \<Rightarrow>
          (let s3 = dropWhile is_space s2;
               ds = takeWhile is_digit s3;
               s4 = dropWhile is_space (dropWhile is_digit s3)
           in if (c = 65288 \<or> c = 40) \<and> 4 \<le> length ds \<and> length ds \<le> 6
                 \<and> (case s4 of [] \<Rightarrow> False | c' # _ \<Rightarrow> c' = 41 \<or> c' = 65289)
              then Some () else None))"

definition COMPANY_SUFFIXES :: "jsstring list" where
  "COMPANY_SUFFIXES =
     [[32929, 20221, 26377, 38480, 20844, 21496], [26377, 38480, 20844, 21496],
      [38598, 22242], [25511, 32929], [31185, 25216], [23454, 19994], [38134, 34892],
      [35777, 21048], [21046, 33647], [33021, 28304], [27773, 36710], [20256, 23186]]"

definition suffix_tail :: "jsstring \<Rightarrow> jsstring option" where
  "suffix_tail s = find (\<lambda>m. starts_with m s) COMPANY_SUFFIXES"

definition extractCompanyNameFromText :: "jsstring \<Rightarrow> jsstring option" where
  "extractCompanyNameFromText text0 =
     (let normalized = trim text0 in
      if normalized = [] then None
      else (case name_search code_tail normalized of
              Some (g, _) \<Rightarrow> Some (trim g)
            | None \<Rightarrow>
                (case name_search suffix_tail normalized of
                   Some (g, m) \<Rightarrow> Some (trim (g @ m))
                 | None \<Rightarrow> None)))"

definition getThreadItems :: "ThreadView \<Rightarrow> ChatItem list" where
  "getThreadItems thread = concat (map (\<lambda>(k, task). items task) (tasks thread))"

text \<open>A function whose body is \<^verbatim>\<open>try { return v } catch { return d }\<close>.\<close>

definition caught :: "js_error + 'a \<Rightarrow> 'a \<Rightarrow> 'a" where
  "caught body d = (case body of Inl e \<Rightarrow> d | Inr v \<Rightarrow> v)"

definition is_tool_call :: "ChatItem \<Rightarrow> bool" where
  "is_tool_call it = (component_type it = Some (js ''tool_call''))"

definition isPlanningAnchorTool :: "runtime \<Rightarrow> ChatItem \<Rightarrow> bool" where
  "isPlanningAnchorTool R it =
     (if \<not> is_tool_call it \<or> \<not> hasContent it then False
      else caught
        (bind_res (parse_json R (content_str it)) (\<lambda>parsed.
         bind_res (get_prop parsed (js ''tool_name'')) (\<lambda>tool_name.
         bind_res (get_prop parsed (js ''step_label'')) (\<lambda>step_label.
           Inr (tool_name = Some (JStr (js ''generate_execution_plan''))
                \<or> nullish step_label (JStr []) \<in> set (map JStr STEP_TEMPLATE_START_TITLES))))))
        False)"

text \<open>\<^verbatim>\<open>parsed.tool_name ?? null\<close>: \<open>JNull\<close> is the source's \<^verbatim>\<open>null\<close>.\<close>

definition getToolNameFromItem :: "runtime \<Rightarrow> ChatItem \<Rightarrow> jsval" where
  "getToolNameFromItem R it =
     (if \<not> is_tool_call it \<or> \<not> hasContent it then JNull
      else caught
        (bind_res (parse_json R (content_str it)) (\<lambda>parsed.
         bind_res (get_prop parsed (js ''tool_name'')) (\<lambda>tool_name.
           Inr (nullish tool_name JNull))))
        JNull)"

definition getStepLabelFromItem :: "runtime \<Rightarrow> ChatItem \<Rightarrow> jsval" where
  "getStepLabelFromItem R it =
     (if \<not> is_tool_call it \<or> \<not> hasContent it then JNull
      else caught
        (bind_res (parse_json R (content_str it)) (\<lambda>parsed.
         bind_res (get_prop parsed (js ''step_label'')) (\<lambda>step_label.
           Inr (nullish step_label JNull))))
        JNull)"

text \<open>
  The loop of \<^verbatim>\<open>getPlanningToolItems\<close>, from \<open>i = n - 1\<close> down: \<open>None\<close> is the
  \<^verbatim>\<open>anchorIndex\<close> left at \<open>-1\<close>.
\<close>

fun anchor_loop :: "runtime \<Rightarrow> ChatItem list \<Rightarrow> nat \<Rightarrow> nat option" where
  "anchor_loop R allToolItems 0 = None"
| "anchor_loop R allToolItems (Suc i) =
     (if isPlanningAnchorTool R (allToolItems ! i) then Some i
      else anchor_loop R allToolItems i)"

definition getPlanningToolItems :: "runtime \<Rightarrow> ThreadView \<Rightarrow> ChatItem list" where
  "getPlanningToolItems R thread =
     (let allToolItems = filter is_tool_call (getThreadItems thread) in
      case anchor_loop R allToolItems (length allToolItems) of
        Some anchorIndex \<Rightarrow> drop anchorIndex allToolItems
      | None \<Rightarrow> [])"

definition user_contents :: "ThreadView \<Rightarrow> jsstring list" where
  "user_contents thread =
     map content_str
       (filter (\<lambda>it. role it = Some (js ''user'') \<and> hasContent it) (getThreadItems thread))"

definition detectStepTemplateInThread :: "runtime \<Rightarrow> ThreadView \<Rightarrow> StepTemplateType" where
  "detectStepTemplateInThread R thread =
     (if list_ex news_query_marker (user_contents thread) then News
      else
        (let planningToolNames =
               filter truthy (map (getToolNameFromItem R) (getPlanningToolItems R thread));
             hasNewsTool = list_ex (\<lambda>name. name \<in> set (map (\<lambda>s. JStr (js s))
                 [''web_search'', ''get_breaking_news'', ''get_financial_news''])) planningToolNames;
             hasResearchTool = list_ex (\<lambda>name. name \<in> set (map (\<lambda>s. JStr (js s))
                 [''fetch_ashare_filings'', ''fetch_us_filing_sections''])) planningToolNames
         in if hasNewsTool \<and> \<not> hasResearchTool then News else Analysis))"

fun first_company :: "jsstring list \<Rightarrow> jsstring option" where
  "first_company [] = None"
| "first_company (c # cs) =
     (case extractCompanyNameFromText c of
        Some candidate \<Rightarrow> if candidate \<noteq> [] then Some candidate else first_company cs
      | None \<Rightarrow> first_company cs)"

definition detectCompanyNameInThread :: "ThreadView \<Rightarrow> jsstring option \<Rightarrow> jsstring option" where
  "detectCompanyNameInThread thread fallbackTaskTitle =
     (case first_company (user_contents thread) of
        Some candidate \<Rightarrow> Some candidate
      | None \<Rightarrow>
          (case fallbackTaskTitle of
             Some t \<Rightarrow> if t \<noteq> [] then extractCompanyNameFromText t else None
           | None \<Rightarrow> None))"

definition getToolStepOrderInThread ::
    "runtime \<Rightarrow> ThreadView \<Rightarrow> jsstring \<Rightarrow> jsstring option \<Rightarrow> nat" where
  "getToolStepOrderInThread R thread itemId currentToolName =
     (let threadToolItems = getPlanningToolItems R thread in
      if length threadToolItems = 0
      then (if currentToolName = Some (js ''generate_execution_plan'') then 1 else 0)
      else (case findIndex (\<lambda>it. is_tool_call it \<and> item_id it = itemId) threadToolItems of
              Some existingIndex \<Rightarrow> existingIndex + 1
            | None \<Rightarrow> length threadToolItems + 1))"

text \<open>\<^verbatim>\<open>templateTitles[stepOrder - 1]\<close>: \<^verbatim>\<open>undefined\<close> at \<open>-1\<close> and past the end.\<close>

definition title_at :: "jsstring list \<Rightarrow> nat \<Rightarrow> jsstring option" where
  "title_at templateTitles stepOrder =
     (if 1 \<le> stepOrder \<and> stepOrder - 1 < length templateTitles
      then Some (templateTitles ! (stepOrder - 1)) else None)"

definition buildPlannedStepLabel ::
    "nat \<Rightarrow> jsstring option \<Rightarrow> StepTemplateType \<Rightarrow> jsstring option" where
  "buildPlannedStepLabel stepOrder companyName templateType =
     (let templateTitles = (if templateType = News then NEWS_STEP_TITLES else ANALYSIS_STEP_TITLES);
          baseTitle = (case title_at templateTitles stepOrder of
                         Some t \<Rightarrow> Some t
                       | None \<Rightarrow> if templateType = Analysis
                                 then Some ANALYSIS_OVERFLOW_STEP_TITLE else None)
      in case baseTitle of
           None \<Rightarrow> None
         | Some b \<Rightarrow>
             if b = [] then None
             else (case companyName of
                     Some name \<Rightarrow>
                       if templateType = Analysis \<and> 2 \<le> stepOrder \<and> name \<noteq> []
                       then Some (b @ [65288] @ name @ [65289])
                       else Some b
                   | None \<Rightarrow> Some b))"

definition shouldApplyAnalysisStepTemplate ::
    "runtime \<Rightarrow> ThreadView \<Rightarrow> jsstring option \<Rightarrow> bool" where
  "shouldApplyAnalysisStepTemplate R thread currentToolName =
     (if currentToolName = Some (js ''generate_execution_plan'') then True
      else (case getPlanningToolItems R thread of
              [] \<Rightarrow> False
            | firstToolItem # _ \<Rightarrow>
                (let firstToolName = getToolNameFromItem R firstToolItem;
                     firstStepLabel = getStepLabelFromItem R firstToolItem
                 in firstToolName = JStr (js ''generate_execution_plan'')
                    \<or> nullish (Some firstToolName) (JStr []) \<in> set (map JStr STEP_TEMPLATE_START_TITLES)
                    \<or> nullish (Some firstStepLabel) (JStr []) \<in> set (map JStr STEP_TEMPLATE_START_TITLES))))"

section \<open>Path resolver\<close>

text \<open>
  \<^verbatim>\<open>ensurePath\<close> returns references into the draft; here it returns the draft with the
  path created and the three containers at the path, and the callers store a container they
  change back at its path.
\<close>

definition ensurePath ::
    "AgentConversationsStore \<Rightarrow> 'a event_data_scheme
     \<Rightarrow> AgentConversationsStore \<times> ConversationView \<times> ThreadView \<times> TaskView" where
  "ensurePath draft d =
     (let conversation0 = (case draft (conversation_id d) of
                             None \<Rightarrow> \<lparr>threads = Map.empty, sections = Map.empty\<rparr>
                           | Some c \<Rightarrow> c);
          thread0 = (case threads conversation0 (thread_id d) of
                       None \<Rightarrow> \<lparr>tasks = []\<rparr>
                     | Some t \<Rightarrow> t);
          (thread, task) = (case map_of (tasks thread0) (task_id d) of
                              None \<Rightarrow> (thread0\<lparr>tasks := obj_set (task_id d) \<lparr>items = []\<rparr> (tasks thread0)\<rparr>,
                                        \<lparr>items = []\<rparr>)
                            | Some k \<Rightarrow> (thread0, k));
          conversation = conversation0\<lparr>threads := (threads conversation0)(thread_id d \<mapsto> thread)\<rparr>
      in (draft(conversation_id d \<mapsto> conversation), conversation, thread, task))"

definition ensureSection ::
    "ConversationView \<Rightarrow> jsstring \<Rightarrow> jsstring \<Rightarrow> ConversationView \<times> ThreadView \<times> TaskView" where
  "ensureSection conversation componentType taskId =
     (let section0 = (case sections conversation componentType of
                        None \<Rightarrow> \<lparr>tasks = []\<rparr>
                      | Some t \<Rightarrow> t);
          (section, task) = (case map_of (tasks section0) taskId of
                               None \<Rightarrow> (section0\<lparr>tasks := obj_set taskId \<lparr>items = []\<rparr> (tasks section0)\<rparr>,
                                         \<lparr>items = []\<rparr>)
                             | Some k \<Rightarrow> (section0, k))
      in (conversation\<lparr>sections := (sections conversation)(componentType \<mapsto> section)\<rparr>,
          section, task))"

text \<open>Storing a changed task back at its path.\<close>

definition put_task :: "jsstring \<Rightarrow> TaskView \<Rightarrow> ThreadView \<Rightarrow> ThreadView" where
  "put_task taskId task thread = thread\<lparr>tasks := obj_set taskId task (tasks thread)\<rparr>"




section \<open>Reasoning completion\<close>

definition markReasoningComplete :: "runtime \<Rightarrow> TaskView \<Rightarrow> jsstring \<Rightarrow> js_error + TaskView" where
  "markReasoningComplete R task itemId =
     (case findIndex (\<lambda>it. item_id it = itemId) (items task) of
        None \<Rightarrow> Inr task
      | Some existingIndex \<Rightarrow>
          (let existingItem = items task ! existingIndex in
           if hasContent existingItem then
             try_catch
               (bind_res (parse_json R (content_str existingItem)) (\<lambda>parsed.
                  Inr (task\<lparr>items := (items task)[existingIndex :=
                    set_content (JSON_stringify R
                      (JObj (obj_set (js ''isComplete'') (JBool True) (spread parsed))))
                      existingItem]\<rparr>)))
               (Inr (task\<lparr>items := (items task)[existingIndex :=
                    set_content (JSON_stringify R
                      (JObj [(js ''content'', JStr (content_str existingItem)),
                             (js ''isComplete'', JBool True)]))
                      existingItem]\<rparr>))
           else Inr task))"

definition is_reasoning :: "ChatItem \<Rightarrow> bool" where
  "is_reasoning it = (component_type it = Some (js ''reasoning''))"

text \<open>One round of the loop of \<^verbatim>\<open>markAllReasoningComplete\<close>; its \<^verbatim>\<open>catch\<close> is empty.\<close>

definition complete_reasoning_item :: "runtime \<Rightarrow> ChatItem \<Rightarrow> ChatItem" where
  "complete_reasoning_item R it =
     (if is_reasoning it \<and> hasContent it then
        caught
          (bind_res (parse_json R (content_str it)) (\<lambda>parsed.
           bind_res (get_prop parsed (js ''isComplete'')) (\<lambda>isComplete.
             Inr (if \<not> (case isComplete of None \<Rightarrow> False | Some v \<Rightarrow> truthy v)
                  then set_content (JSON_stringify R
                         (JObj (obj_set (js ''isComplete'') (JBool True) (spread parsed)))) it
                  else it))))
          it
      else it)"

definition markAllReasoningComplete :: "runtime \<Rightarrow> TaskView \<Rightarrow> TaskView" where
  "markAllReasoningComplete R task = task\<lparr>items := map (complete_reasoning_item R) (items task)\<rparr>"

section \<open>Item merge policy\<close>

text \<open>The body of the \<^verbatim>\<open>try\<close> of \<^verbatim>\<open>addOrUpdateItem\<close>: the content it stores, or what it throws.\<close>

definition merged_reasoning :: "runtime \<Rightarrow> jsstring \<Rightarrow> jsstring \<Rightarrow> js_error + jsstring" where
  "merged_reasoning R existingContent newContent =
     bind_res (parse_json R existingContent) (\<lambda>existingParsed.
     bind_res (parse_json R newContent) (\<lambda>newParsed.
     bind_res (get_prop existingParsed (js ''content'')) (\<lambda>ec.
     bind_res (get_prop newParsed (js ''content'')) (\<lambda>nc.
     bind_res (get_prop newParsed (js ''isComplete'')) (\<lambda>ic.
       Inr (JSON_stringify R (JObj
         [(js ''content'', js_plus R (nullish ec (JStr [])) (nullish nc (JStr []))),
          (js ''isComplete'', nullish ic (JBool False))])))))))"

definition replace_at :: "nat \<Rightarrow> ChatItem \<Rightarrow> TaskView \<Rightarrow> TaskView" where
  "replace_at i it task = task\<lparr>items := (items task)[i := it]\<rparr>"

definition addOrUpdateItem ::
    "runtime \<Rightarrow> TaskView \<Rightarrow> ChatItem \<Rightarrow> merge_mode \<Rightarrow> js_error + TaskView" where
  "addOrUpdateItem R task newItem ev =
     (case findIndex (\<lambda>it. item_id it = item_id newItem) (items task) of
        None \<Rightarrow> Inr (task\<lparr>items := items task @ [newItem]\<rparr>)
      | Some existingIndex \<Rightarrow>
          (let existingItem = items task ! existingIndex in
           if ev = Append \<and> hasContent existingItem \<and> hasContent newItem then
             Inr (replace_at existingIndex
                    (set_content (content_str existingItem @ content_str newItem) existingItem) task)
           else if ev = AppendReasoning \<and> hasContent existingItem \<and> hasContent newItem then
             try_catch
               (bind_res (merged_reasoning R (content_str existingItem) (content_str newItem))
                  (\<lambda>c. Inr (replace_at existingIndex (set_content c existingItem) task)))
               (Inr (replace_at existingIndex newItem task))
           else Inr (replace_at existingIndex newItem task)))"

section \<open>Event processor\<close>

definition store_task ::
    "AgentConversationsStore \<Rightarrow> ConversationView \<Rightarrow> ThreadView \<Rightarrow> 'a event_data_scheme
     \<Rightarrow> TaskView \<Rightarrow> AgentConversationsStore" where
  "store_task draft conversation thread d task =
     draft(conversation_id d \<mapsto>
       conversation\<lparr>threads := (threads conversation)(thread_id d \<mapsto> put_task (task_id d) task thread)\<rparr>)"

definition handleChatItemEvent ::
    "runtime \<Rightarrow> AgentConversationsStore \<Rightarrow> ChatItem \<Rightarrow> merge_mode
     \<Rightarrow> js_error + AgentConversationsStore" where
  "handleChatItemEvent R draft d ev =
     (case ensurePath draft d of (draft1, conversation, thread, task) \<Rightarrow>
        (case component_type d of
           Some componentType \<Rightarrow>
             if componentType \<noteq> [] \<and> componentType \<in> set (AGENT_SECTION_COMPONENT_TYPE R) then
               (case ensureSection conversation componentType (task_id d) of
                  (conversation1, section, sectionTask) \<Rightarrow>
                    bind_res (addOrUpdateItem R sectionTask d ev) (\<lambda>sectionTask'.
                      Inr (draft1(conversation_id d \<mapsto>
                        conversation1\<lparr>sections := (sections conversation1)
                          (componentType \<mapsto> put_task (task_id d) sectionTask' section)\<rparr>))))
             else bind_res (addOrUpdateItem R task d ev) (\<lambda>task'.
                    Inr (store_task draft1 conversation thread d task'))
         | None \<Rightarrow> bind_res (addOrUpdateItem R task d ev) (\<lambda>task'.
                    Inr (store_task draft1 conversation thread d task'))))"

record SSEData =
  event :: jsstring
  data :: event_data

text \<open>\<^verbatim>\<open>{ component_type: c, ...data, payload: p }\<close>\<close>

definition chat_item :: "jsstring option \<Rightarrow> event_data \<Rightarrow> props \<Rightarrow> ChatItem" where
  "chat_item c d p =
     \<lparr>item_id = item_id d, conversation_id = conversation_id d, thread_id = thread_id d,
      task_id = task_id d, role = role d, payload = p, metadata = metadata d,
      component_type = c\<rparr>"

definition MARKDOWN_EVENTS :: "jsstring list" where
  "MARKDOWN_EVENTS = map js [''thread_started'', ''message_chunk'', ''message'', ''task_failed'',
     ''plan_failed'', ''plan_require_user_input'']"

text \<open>
  \<^verbatim>\<open>{ content: data.payload.content, isComplete: false }\<close>, as \<^verbatim>\<open>JSON.stringify\<close> sees
  it: a property that is \<^verbatim>\<open>undefined\<close> is left out.
\<close>

definition reasoning_record :: "props \<Rightarrow> jsval" where
  "reasoning_record p =
     (case map_of p (js ''content'') of
        Some c \<Rightarrow> JObj [(js ''content'', c), (js ''isComplete'', JBool False)]
      | None \<Rightarrow> JObj [(js ''isComplete'', JBool False)])"

definition task_title :: "event_data \<Rightarrow> jsstring option" where
  "task_title d = (case metadata d of None \<Rightarrow> None | Some m \<Rightarrow> str_prop m (js ''task_title''))"

definition label_val :: "jsstring option \<Rightarrow> jsval" where
  "label_val l = (case l of None \<Rightarrow> JNull | Some s \<Rightarrow> JStr s)"

definition processSSEEvent ::
    "runtime \<Rightarrow> AgentConversationsStore \<Rightarrow> SSEData \<Rightarrow> js_error + AgentConversationsStore" where
  "processSSEEvent R draft sseData =
     (let ev = event sseData; d = data sseData in
      if ev = js ''component_generator'' then
        (let component_type = str_prop (payload d) (js ''component_type'') in
         if component_type = Some (js ''scheduled_task_result'')
            \<or> component_type = Some (js ''subagent_conversation'')
         then handleChatItemEvent R draft (chat_item component_type d (payload d)) Replace
         else handleChatItemEvent R draft (chat_item component_type d (payload d)) Append)
      else if ev \<in> set MARKDOWN_EVENTS then
        handleChatItemEvent R draft (chat_item (Some (js ''markdown'')) d (payload d)) Append
      else if ev = js ''reasoning'' then
        handleChatItemEvent R draft
          (chat_item (Some (js ''reasoning'')) d
             [(js ''content'', JStr (JSON_stringify R (reasoning_record (payload d))))])
          AppendReasoning
      else if ev = js ''reasoning_started'' then
        handleChatItemEvent R draft
          (chat_item (Some (js ''reasoning'')) d
             [(js ''content'', JStr (JSON_stringify R
                (JObj [(js ''content'', JStr []), (js ''isComplete'', JBool False)])))])
          Replace
      else if ev = js ''reasoning_completed'' then
        (case ensurePath draft d of (draft1, conversation, thread, task) \<Rightarrow>
           bind_res (markReasoningComplete R task (item_id d)) (\<lambda>task'.
             Inr (store_task draft1 conversation thread d task')))
      else if ev = js ''tool_call_started'' \<or> ev = js ''tool_call_completed'' then
        (case ensurePath draft d of (draft1, conversation, thread, task) \<Rightarrow>
           (let templateType = detectStepTemplateInThread R thread;
                tool_name = str_prop (payload d) (js ''tool_name'');
                shouldApplyTemplate = shouldApplyAnalysisStepTemplate R thread tool_name;
                stepOrder = getToolStepOrderInThread R thread (item_id d) tool_name;
                companyName = detectCompanyNameInThread thread (task_title d);
                plannedStepLabel = (if shouldApplyTemplate
                                    then buildPlannedStepLabel stepOrder companyName templateType
                                    else None)
            in handleChatItemEvent R draft1
                 (chat_item (Some (js ''tool_call'')) d
                    [(js ''content'', JStr (JSON_stringify R
                       (JObj (obj_set (js ''step_label'') (label_val plannedStepLabel) (payload d)))))])
                 Replace))
      else Inr draft)"

definition updateAgentConversationsStore ::
    "runtime \<Rightarrow> AgentConversationsStore \<Rightarrow> SSEData \<Rightarrow> js_error + AgentConversationsStore" where
  "updateAgentConversationsStore R store sseData = processSSEEvent R store sseData"

fun process_all ::
    "runtime \<Rightarrow> AgentConversationsStore \<Rightarrow> SSEData list \<Rightarrow> js_error + AgentConversationsStore" where
  "process_all R draft [] = Inr draft"
| "process_all R draft (sseData # rest) =
     bind_res (processSSEEvent R draft sseData) (\<lambda>draft'. process_all R draft' rest)"

definition complete_thread :: "runtime \<Rightarrow> ThreadView \<Rightarrow> ThreadView" where
  "complete_thread R thread =
     thread\<lparr>tasks := map (\<lambda>(k, task). (k, markAllReasoningComplete R task)) (tasks thread)\<rparr>"

definition complete_conversation :: "runtime \<Rightarrow> ConversationView \<Rightarrow> ConversationView" where
  "complete_conversation R conversation =
     conversation\<lparr>threads := (\<lambda>k. map_option (complete_thread R) (threads conversation k))\<rparr>"

definition batchUpdateAgentConversationsStore ::
    "runtime \<Rightarrow> AgentConversationsStore \<Rightarrow> jsstring \<Rightarrow> SSEData list \<Rightarrow> bool
     \<Rightarrow> js_error + AgentConversationsStore" where
  "batchUpdateAgentConversationsStore R store conversationId sseDataList clearHistory =
     (let draft = (if clearHistory \<and> store conversationId \<noteq> None
                   then store(conversationId := None) else store)
      in bind_res (process_all R draft sseDataList) (\<lambda>draft'.
           Inr (case draft' conversationId of
                  None \<Rightarrow> draft'
                | Some conversation \<Rightarrow>
                    draft'(conversationId \<mapsto> complete_conversation R conversation))))"

section \<open>Reading a store\<close>

text \<open>
  \<^verbatim>\<open>store[c]?.threads[t]?.tasks[k]\<close> and \<^verbatim>\<open>store[c]?.sections[kind]?.tasks[k]\<close>, for
  stating what a store holds.
\<close>

definition main_task ::
    "AgentConversationsStore \<Rightarrow> jsstring \<Rightarrow> jsstring \<Rightarrow> jsstring \<Rightarrow> TaskView option" where
  "main_task s c t k =
     (case s c of
        None \<Rightarrow> None
      | Some co \<Rightarrow> (case threads co t of None \<Rightarrow> None | Some th \<Rightarrow> map_of (tasks th) k))"


section \<open>Reachable stores and what they hold\<close>


text \<open>An item whose component kind is one of \<^verbatim>\<open>AGENT_SECTION_COMPONENT_TYPE\<close>.\<close>

definition section_worthy :: "runtime \<Rightarrow> ChatItem \<Rightarrow> bool" where
  "section_worthy R it =
     (case component_type it of
        None \<Rightarrow> False
      | Some kind \<Rightarrow> kind \<in> set (AGENT_SECTION_COMPONENT_TYPE R))"

text \<open>The items of \<^verbatim>\<open>conversation.threads[*].tasks[*].items\<close>.\<close>

definition conv_items :: "ConversationView \<Rightarrow> ChatItem set" where
  "conv_items co =
     {it. \<exists>t th k task. threads co t = Some th \<and> (k, task) \<in> set (tasks th) \<and> it \<in> set (items task)}"




text \<open>
  The task entries of \<^verbatim>\<open>store[c]?.threads[t]\<close>, of \<^verbatim>\<open>store[c]?.sections[kind]\<close> and of
  \<^verbatim>\<open>conversation.threads[t]\<close>: the empty list when the container is absent.
\<close>

definition thread_tasks ::
    "AgentConversationsStore \<Rightarrow> jsstring \<Rightarrow> jsstring \<Rightarrow> (jsstring \<times> TaskView) list" where
  "thread_tasks s c t =
     (case s c of
        None \<Rightarrow> []
      | Some co \<Rightarrow> (case threads co t of None \<Rightarrow> [] | Some th \<Rightarrow> tasks th))"


definition co_tasks :: "ConversationView \<Rightarrow> jsstring \<Rightarrow> (jsstring \<times> TaskView) list" where
  "co_tasks co t = (case threads co t of None \<Rightarrow> [] | Some th \<Rightarrow> tasks th)"

text \<open>The test of \<^verbatim>\<open>handleChatItemEvent\<close> that sends an item to its section.\<close>

definition routed_to_section :: "runtime \<Rightarrow> ChatItem \<Rightarrow> bool" where
  "routed_to_section R d =
     (case component_type d of
        None \<Rightarrow> False
      | Some componentType \<Rightarrow>
          componentType \<noteq> [] \<and> componentType \<in> set (AGENT_SECTION_COMPONENT_TYPE R))"


section \<open>An example runtime\<close>

text \<open>
  A writer and a reader of compact JSON, for running the reducer on examples: strings
  with the escapes of the quote and the backslash, integers, booleans, \<^verbatim>\<open>null\<close>,
  arrays and objects, without white space. On this fragment they are \<^verbatim>\<open>JSON.stringify\<close>
  and \<^verbatim>\<open>JSON.parse\<close>; a number that is not an integer is outside it and is written
  as \<^verbatim>\<open>null\<close>. The theorems below hold for every runtime and use this one only in
  their examples.
\<close>

definition quote_string :: "jsstring \<Rightarrow> jsstring" where
  "quote_string s = [34] @ concat (map (\<lambda>c. if c = 34 \<or> c = 92 then [92, c] else [c]) s) @ [34]"

fun join_commas :: "jsstring list \<Rightarrow> jsstring" where
  "join_commas [] = []"
| "join_commas [x] = x"
| "join_commas (x # y # r) = x @ [44] @ join_commas (y # r)"

fun demo_stringify :: "jsval \<Rightarrow> jsstring" where
  "demo_stringify JNull = js ''null''"
| "demo_stringify (JBool b) = (if b then js ''true'' else js ''false'')"
| "demo_stringify (JNum r) =
     (if r = of_int \<lfloor>r\<rfloor>
      then (if r < 0 then [45] else []) @ dec_string (nat \<bar>\<lfloor>r\<rfloor>\<bar>)
      else js ''null'')"
| "demo_stringify (JStr s) = quote_string s"
| "demo_stringify (JArr vs) = [91] @ join_commas (map demo_stringify vs) @ [93]"
| "demo_stringify (JObj kvs) =
     [123] @ join_commas (map (\<lambda>kv. quote_string (fst kv) @ [58] @ demo_stringify (snd kv)) kvs)
       @ [125]"

fun read_string :: "jsstring \<Rightarrow> (jsstring \<times> jsstring) option" where
  "read_string [] = None"
| "read_string (c # cs) =
     (if c = 34 then Some ([], cs)
      else if c = 92 then
        (case cs of
           [] \<Rightarrow> None
         | e # cs' \<Rightarrow>
             if e = 34 \<or> e = 92
             then map_option (\<lambda>(s, r). (e # s, r)) (read_string cs')
             else None)
      else if c < 32 then None
      else map_option (\<lambda>(s, r). (c # s, r)) (read_string cs))"

definition read_number :: "jsstring \<Rightarrow> (jsval \<times> jsstring) option" where
  "read_number s =
     (let neg = starts_with [45] s;
          s1 = (if neg then tl s else s);
          ds = takeWhile is_digit s1
      in if ds \<noteq> [] \<and> (ds = [48] \<or> hd ds \<noteq> 48)
         then Some (JNum (if neg then - of_nat (dec_value ds) else of_nat (dec_value ds)),
                    dropWhile is_digit s1)
         else None)"

text \<open>The first argument bounds the depth and the number of members read.\<close>

fun read_value :: "nat \<Rightarrow> jsstring \<Rightarrow> (jsval \<times> jsstring) option"
  and read_members :: "nat \<Rightarrow> jsstring \<Rightarrow> (props \<times> jsstring) option"
  and read_elements :: "nat \<Rightarrow> jsstring \<Rightarrow> (jsval list \<times> jsstring) option" where
  "read_value 0 s = None"
| "read_value (Suc n) s =
     (case s of
        [] \<Rightarrow> None
      | c # cs \<Rightarrow>
          if c = 34 then map_option (\<lambda>(x, r). (JStr x, r)) (read_string cs)
          else if c = 123 then
            (if starts_with [125] cs then Some (JObj [], tl cs)
             else map_option (\<lambda>(m, r). (JObj (foldl (\<lambda>ob (k, v). obj_set k v ob) [] m), r))
                    (read_members n cs))
          else if c = 91 then
            (if starts_with [93] cs then Some (JArr [], tl cs)
             else map_option (\<lambda>(vs, r). (JArr vs, r)) (read_elements n cs))
          else if starts_with (js ''null'') s then Some (JNull, drop 4 s)
          else if starts_with (js ''true'') s then Some (JBool True, drop 4 s)
          else if starts_with (js ''false'') s then Some (JBool False, drop 5 s)
          else read_number s)"
| "read_members 0 s = None"
| "read_members (Suc n) s =
     (case s of
        [] \<Rightarrow> None
      | c # cs \<Rightarrow>
          if c \<noteq> 34 then None
          else (case read_string cs of
                  None \<Rightarrow> None
                | Some (k, r) \<Rightarrow>
                    if \<not> starts_with [58] r then None
                    else (case read_value n (tl r) of
                            None \<Rightarrow> None
                          | Some (v, r') \<Rightarrow>
                              if starts_with [125] r' then Some ([(k, v)], tl r')
                              else if starts_with [44] r'
                              then map_option (\<lambda>(m, r''). ((k, v) # m, r''))
                                     (read_members n (tl r'))
                              else None)))"
| "read_elements 0 s = None"
| "read_elements (Suc n) s =
     (case read_value n s of
        None \<Rightarrow> None
      | Some (v, r) \<Rightarrow>
          if starts_with [93] r then Some ([v], tl r)
          else if starts_with [44] r
          then map_option (\<lambda>(vs, r'). (v # vs, r')) (read_elements n (tl r))
          else None)"

definition demo_parse :: "jsstring \<Rightarrow> jsval option" where
  "demo_parse s = (case read_value (Suc (length s)) s of Some (v, []) \<Rightarrow> Some v | _ \<Rightarrow> None)"

text \<open>
  The example runtime adds two numbers; the examples add nothing else but strings. Its
  section kinds are an example of the constant, which is not among the sources.
\<close>

definition demo_runtime :: runtime where
  "demo_runtime =
     \<lparr>JSON_parse = demo_parse,
      JSON_stringify = demo_stringify,
      plus_coerced = (\<lambda>a b. case (a, b) of (JNum x, JNum y) \<Rightarrow> JNum (x + y) | _ \<Rightarrow> JNull),
      AGENT_SECTION_COMPONENT_TYPE = [js ''scheduled_task_result'']\<rparr>"

text \<open>The \<^verbatim>\<open>case\<close> labels of the \<^verbatim>\<open>switch\<close> of \<^verbatim>\<open>processSSEEvent\<close>.\<close>

definition RECOGNIZED_EVENTS :: "jsstring list" where
  "RECOGNIZED_EVENTS =
     js ''component_generator'' # MARKDOWN_EVENTS
       @ map js [''reasoning'', ''reasoning_started'', ''reasoning_completed'',
                 ''tool_call_started'', ''tool_call_completed'']"

text \<open>An item of the examples.\<close>

definition demo_item :: "string \<Rightarrow> string \<Rightarrow> jsstring \<Rightarrow> ChatItem" where
  "demo_item i kind c =
     \<lparr>item_id = js i, conversation_id = js ''c1'', thread_id = js ''th1'', task_id = js ''t1'',
      role = Some (js ''agent''), payload = [(js ''content'', JStr c)], metadata = None,
      component_type = Some (js kind)\<rparr>"

text \<open>A tool-call item as \<^verbatim>\<open>processSSEEvent\<close> stores it, and a thread of the examples.\<close>

definition demo_tool_item :: "string \<Rightarrow> string \<Rightarrow> jsval \<Rightarrow> ChatItem" where
  "demo_tool_item i tool label =
     \<lparr>item_id = js i, conversation_id = js ''c1'', thread_id = js ''th1'', task_id = js ''t1'',
      role = Some (js ''agent''),
      payload = [(js ''content'', JStr (demo_stringify
         (JObj [(js ''tool_name'', JStr (js tool)), (js ''step_label'', label)])))],
      metadata = None, component_type = Some (js ''tool_call'')\<rparr>"

definition demo_thread :: ThreadView where
  "demo_thread =
     \<lparr>tasks = [(js ''t1'',
        \<lparr>items = [demo_item ''m1'' ''markdown'' (js ''hello''),
                  demo_tool_item ''k1'' ''generate_execution_plan'' (JStr (hd ANALYSIS_STEP_TITLES)),
                  demo_tool_item ''k2'' ''web_search'' JNull]\<rparr>)]\<rparr>"

text \<open>An event of the examples, and a store holding one item at the path of the examples.\<close>

definition demo_event :: "string \<Rightarrow> string \<Rightarrow> string \<Rightarrow> props \<Rightarrow> SSEData" where
  "demo_event kind i t p =
     \<lparr>event = js kind,
      data = \<lparr>item_id = js i, conversation_id = js ''c1'', thread_id = js ''th1'',
              task_id = js t, role = Some (js ''agent''), payload = p, metadata = None\<rparr>\<rparr>"

definition demo_store :: "ChatItem \<Rightarrow> AgentConversationsStore" where
  "demo_store it =
     [js ''c1'' \<mapsto> \<lparr>threads = [js ''th1'' \<mapsto> \<lparr>tasks = [(js ''t1'', \<lparr>items = [it]\<rparr>)]\<rparr>],
                      sections = Map.empty\<rparr>]"

text \<open>The content of a reasoning item, as the reasoning events store it.\<close>

definition demo_reasoning :: "string \<Rightarrow> bool \<Rightarrow> jsstring" where
  "demo_reasoning c b =
     demo_stringify (JObj [(js ''content'', JStr (js c)), (js ''isComplete'', JBool b)])"




text \<open>
  Stores and event lists of the examples of the batch replay: a store that holds the
  conversation, a reasoning chunk followed by a message chunk with the same item id and
  the item they leave, and the events of an ordinary reasoning trace.
\<close>

definition demo_old_store :: AgentConversationsStore where
  "demo_old_store = demo_store (demo_item ''m0'' ''markdown'' (js ''old''))"

definition demo_mixed_events :: "SSEData list" where
  "demo_mixed_events =
     [demo_event ''reasoning'' ''r1'' ''t1'' [(js ''content'', JStr (js ''a''))],
      demo_event ''message_chunk'' ''r1'' ''t1'' [(js ''content'', JStr (js ''b''))]]"

definition demo_mixed_item :: ChatItem where
  "demo_mixed_item =
     chat_item (Some (js ''reasoning''))
       (data (demo_event ''reasoning'' ''r1'' ''t1'' []))
       [(js ''content'', JStr (demo_reasoning ''a'' False @ js ''b''))]"

definition demo_reasoning_events :: "SSEData list" where
  "demo_reasoning_events =
     [demo_event ''reasoning_started'' ''r1'' ''t1'' [],
      demo_event ''reasoning'' ''r1'' ''t1'' [(js ''content'', JStr (js ''foo''))]]"

text \<open>
  The events of the step-labelling example: a user message that names a subject, the start
  and the completion of the plan-generation tool call, and the start of a second tool call;
  and a tool-call item with its label as \<^verbatim>\<open>processSSEEvent\<close> stores it.
\<close>

definition demo_user_message :: "string \<Rightarrow> SSEData" where
  "demo_user_message c =
     \<lparr>event = js ''message'',
      data = \<lparr>item_id = js ''u1'', conversation_id = js ''c1'', thread_id = js ''th1'',
              task_id = js ''t1'', role = Some (js ''user''),
              payload = [(js ''content'', JStr (js c))], metadata = None\<rparr>\<rparr>"

definition demo_tool_event :: "string \<Rightarrow> string \<Rightarrow> string \<Rightarrow> SSEData" where
  "demo_tool_event kind i tool =
     demo_event kind i ''t1'' [(js ''tool_call_id'', JStr (js i)), (js ''tool_name'', JStr (js tool))]"

definition demo_plan_events :: "SSEData list" where
  "demo_plan_events =
     [demo_user_message ''Tesla (123456)'',
      demo_tool_event ''tool_call_started'' ''k1'' ''generate_execution_plan'',
      demo_tool_event ''tool_call_completed'' ''k1'' ''generate_execution_plan'',
      demo_tool_event ''tool_call_started'' ''k2'' ''fetch_us_filing_sections'']"

definition demo_labelled :: "string \<Rightarrow> string \<Rightarrow> jsstring \<Rightarrow> ChatItem" where
  "demo_labelled i tool label =
     chat_item (Some (js ''tool_call'')) (data (demo_tool_event ''tool_call_started'' i tool))
       [(js ''content'', JStr (demo_stringify (JObj
          [(js ''tool_call_id'', JStr (js i)), (js ''tool_name'', JStr (js tool)),
           (js ''step_label'', JStr label)])))]"

text \<open>The title \<^verbatim>\<open>buildPlannedStepLabel\<close> looks up for the analysis template.\<close>

definition analysis_title :: "nat \<Rightarrow> jsstring" where
  "analysis_title stepOrder =
     (case title_at ANALYSIS_STEP_TITLES stepOrder of
        Some t \<Rightarrow> t
      | None \<Rightarrow> ANALYSIS_OVERFLOW_STEP_TITLE)"

section \<open>Basic facts\<close>

lemma findIndex_Some_less: "findIndex P xs = Some i \<Longrightarrow> i < length xs \<and> P (xs ! i)"
  by (induction xs arbitrary: i) (auto split: if_splits)

lemma bind_res_simps [simp]:
  "bind_res (Inr v) f = f v" "bind_res (Inl e) f = Inl e"
  by (simp_all add: bind_res_def)

lemma try_catch_simps [simp]:
  "try_catch (Inr v) h = Inr v" "try_catch (Inl e) h = h"
  by (simp_all add: try_catch_def)

lemma caught_simps [simp]:
  "caught (Inr v) d = v" "caught (Inl e) d = d"
  by (simp_all add: caught_def)

lemma js_eq_iff [simp]: "js a = js b \<longleftrightarrow> a = b"
  by (simp add: js_def inj_map_eq_map inj_of_char)

lemma hasContent_iff: "hasContent it \<longleftrightarrow> (\<exists>c. content_of it = Some c)"
  by (simp add: hasContent_def)

lemma content_of_map_of:
  "content_of it = Some c \<Longrightarrow> map_of (payload it) (js ''content'') = Some (JStr c)"
  by (auto simp: content_of_def str_prop_def split: option.splits jsval.splits)

lemma set_content_existing:
  "content_of it = Some c \<Longrightarrow>
   set_content s it = it\<lparr>payload := AList.update (js ''content'') (JStr s) (payload it)\<rparr>"
  by (simp add: set_content_def obj_set_def content_of_map_of)

lemma content_of_update [simp]:
  "content_of (it\<lparr>payload := AList.update (js ''content'') (JStr s) (payload it)\<rparr>) = Some s"
  by (simp add: content_of_def str_prop_def update_conv')

lemma findIndex_append_new:
  "findIndex P xs = None \<Longrightarrow> P x \<Longrightarrow> findIndex P (xs @ [x]) = Some (length xs)"
  by (induction xs) (auto split: if_splits)

lemma findIndex_None_iff: "findIndex P xs = None \<longleftrightarrow> (\<forall>x\<in>set xs. \<not> P x)"
  by (induction xs) auto

lemma map_of_obj_insert:
  "map_of kvs k = None \<Longrightarrow> map_of (obj_insert k v kvs) = (map_of kvs)(k \<mapsto> v)"
proof (induction kvs)
  case Nil
  then show ?case by simp
next
  case (Cons a kvs)
  obtain k' v' where a: "a = (k', v')" by (cases a)
  from Cons.prems a have ne: "k' \<noteq> k" and n: "map_of kvs k = None"
    by (auto split: if_splits)
  show ?case
    using Cons.IH [OF n] ne a by (auto simp: fun_upd_twist)
qed

lemma map_of_obj_set [simp]: "map_of (obj_set k v kvs) = (map_of kvs)(k \<mapsto> v)"
  by (simp add: obj_set_def update_conv' map_of_obj_insert split: option.splits)

lemma set_obj_insert: "set (obj_insert k v kvs) = insert (k, v) (set kvs)"
  by (induction kvs) (auto split: if_splits)

lemma keys_obj_insert: "fst ` set (obj_insert k v kvs) = insert k (fst ` set kvs)"
  by (simp add: set_obj_insert)



lemma obj_set_existing:
  "map_of kvs k = Some w \<Longrightarrow> obj_set k v kvs = AList.update k v kvs"
  by (simp add: obj_set_def)



lemma markReasoningComplete_found:
  assumes "findIndex (\<lambda>it. item_id it = itemId) (items task) = Some i"
    and "content_of (items task ! i) = Some c"
  shows "markReasoningComplete R task itemId =
     Inr (task\<lparr>items := (items task)[i := (items task ! i)
       \<lparr>payload := AList.update (js ''content'')
          (JStr (case JSON_parse R c of
                   Some parsed \<Rightarrow> JSON_stringify R
                     (JObj (obj_set (js ''isComplete'') (JBool True) (spread parsed)))
                 | None \<Rightarrow> JSON_stringify R
                     (JObj [(js ''content'', JStr c), (js ''isComplete'', JBool True)])))
          (payload (items task ! i))\<rparr>]\<rparr>)"
  using assms
  by (simp add: markReasoningComplete_def Let_def hasContent_def content_str_def parse_json_def
      set_content_existing split: option.splits)

lemma markReasoningComplete_other:
  "findIndex (\<lambda>it. item_id it = itemId) (items task) = None
   \<or> (\<exists>i. findIndex (\<lambda>it. item_id it = itemId) (items task) = Some i
         \<and> content_of (items task ! i) = None) \<Longrightarrow>
   markReasoningComplete R task itemId = Inr task"
  by (auto simp: markReasoningComplete_def Let_def hasContent_def)

lemma ensurePath_existing:
  assumes "s (conversation_id d) = Some co" "threads co (thread_id d) = Some th"
    "map_of (tasks th) (task_id d) = Some task"
  shows "ensurePath s d = (s, co, th, task)"
proof -
  have "(threads co)(thread_id d \<mapsto> th) = threads co"
    using assms(2) by (simp add: fun_upd_idem)
  moreover have "s(conversation_id d \<mapsto> co) = s"
    using assms(1) by (simp add: fun_upd_idem)
  ultimately show ?thesis
    using assms by (simp add: ensurePath_def)
qed

lemma reasoning_completed_step:
  assumes "event e = js ''reasoning_completed''"
    and "s (conversation_id (data e)) = Some co"
    and "threads co (thread_id (data e)) = Some th"
    and "map_of (tasks th) (task_id (data e)) = Some task"
  shows "processSSEEvent R s e =
     bind_res (markReasoningComplete R task (item_id (data e))) (\<lambda>task'.
       Inr (s(conversation_id (data e) \<mapsto>
         co\<lparr>threads := (threads co)(thread_id (data e) \<mapsto>
           th\<lparr>tasks := AList.update (task_id (data e)) task' (tasks th)\<rparr>)\<rparr>)))"
  using assms
  by (simp add: processSSEEvent_def Let_def MARKDOWN_EVENTS_def ensurePath_existing
      store_task_def put_task_def obj_set_existing)

lemmas demo_eval =
  demo_parse_def demo_runtime_def demo_tool_item_def demo_item_def demo_thread_def
  starts_with_def quote_string_def js_def is_digit_def read_number_def
  parse_json_def content_str_def content_of_def str_prop_def hasContent_def is_tool_call_def
  STEP_TEMPLATE_START_TITLES_def ANALYSIS_STEP_TITLES_def NEWS_STEP_TITLES_def
  obj_set_def is_array_index_def dec_value_def

section \<open>Item merge policy: append\<close>

text \<open>
  Claim C2. An item whose \<open>item_id\<close> is not in the task is appended at the end of the
  items, whatever the mode. Upserting \<open>a\<close> and then \<open>b\<close> with the same \<open>item_id\<close> in
  mode append, both with string content, leaves one item: \<open>a\<close> with the content
  \<open>content a @ content b\<close> and nothing else changed. On an existing item at index \<open>i\<close>,
  append with string content on both sides changes only the content property of the
  payload of the existing item; when either side has no content the existing item is
  replaced by the new one at its index.
\<close>

theorem C2_append_upsert:
  "(findIndex (\<lambda>it. item_id it = item_id b) (items task) = None \<longrightarrow>
      addOrUpdateItem R task b ev = Inr (task\<lparr>items := items task @ [b]\<rparr>))
   \<and> (findIndex (\<lambda>it. item_id it = item_id a) (items task) = None \<and> item_id b = item_id a
        \<and> content_of a = Some ca \<and> content_of b = Some cb \<longrightarrow>
      (\<exists>t1 t2. addOrUpdateItem R task a Append = Inr t1
         \<and> addOrUpdateItem R t1 b Append = Inr t2
         \<and> items t2 = items task
              @ [a\<lparr>payload := AList.update (js ''content'') (JStr (ca @ cb)) (payload a)\<rparr>]
         \<and> content_of (last (items t2)) = Some (ca @ cb)))
   \<and> (findIndex (\<lambda>it. item_id it = item_id b) (items task) = Some i \<longrightarrow>
        (content_of (items task ! i) = Some ca \<and> content_of b = Some cb \<longrightarrow>
           addOrUpdateItem R task b Append =
             Inr (task\<lparr>items := (items task)[i := (items task ! i)
               \<lparr>payload := AList.update (js ''content'') (JStr (ca @ cb))
                   (payload (items task ! i))\<rparr>]\<rparr>))
        \<and> (map_of (payload (items task ! i)) (js ''content'') = None
             \<or> map_of (payload b) (js ''content'') = None \<longrightarrow>
           addOrUpdateItem R task b Append = Inr (task\<lparr>items := (items task)[i := b]\<rparr>)))"
proof (intro conjI impI)
  assume "findIndex (\<lambda>it. item_id it = item_id b) (items task) = None"
  then show "addOrUpdateItem R task b ev = Inr (task\<lparr>items := items task @ [b]\<rparr>)"
    by (simp add: addOrUpdateItem_def)
next
  assume h: "findIndex (\<lambda>it. item_id it = item_id a) (items task) = None \<and> item_id b = item_id a
        \<and> content_of a = Some ca \<and> content_of b = Some cb"
  let ?t1 = "task\<lparr>items := items task @ [a]\<rparr>"
  have 1: "addOrUpdateItem R task a Append = Inr ?t1"
    using h by (simp add: addOrUpdateItem_def)
  have f: "findIndex (\<lambda>it. item_id it = item_id b) (items ?t1) = Some (length (items task))"
    using h by (simp add: findIndex_append_new)
  have 2: "addOrUpdateItem R ?t1 b Append =
      Inr (?t1\<lparr>items := items task
         @ [a\<lparr>payload := AList.update (js ''content'') (JStr (ca @ cb)) (payload a)\<rparr>]\<rparr>)"
    using h f
    by (simp add: addOrUpdateItem_def hasContent_def content_str_def replace_at_def
        set_content_existing)
  show "\<exists>t1 t2. addOrUpdateItem R task a Append = Inr t1
         \<and> addOrUpdateItem R t1 b Append = Inr t2
         \<and> items t2 = items task
              @ [a\<lparr>payload := AList.update (js ''content'') (JStr (ca @ cb)) (payload a)\<rparr>]
         \<and> content_of (last (items t2)) = Some (ca @ cb)"
    using 1 2 by simp
next
  assume "findIndex (\<lambda>it. item_id it = item_id b) (items task) = Some i"
    and "content_of (items task ! i) = Some ca \<and> content_of b = Some cb"
  then show "addOrUpdateItem R task b Append =
             Inr (task\<lparr>items := (items task)[i := (items task ! i)
               \<lparr>payload := AList.update (js ''content'') (JStr (ca @ cb))
                   (payload (items task ! i))\<rparr>]\<rparr>)"
    by (simp add: addOrUpdateItem_def hasContent_def content_str_def replace_at_def
        set_content_existing Let_def)
next
  assume "findIndex (\<lambda>it. item_id it = item_id b) (items task) = Some i"
    and "map_of (payload (items task ! i)) (js ''content'') = None
             \<or> map_of (payload b) (js ''content'') = None"
  then show "addOrUpdateItem R task b Append = Inr (task\<lparr>items := (items task)[i := b]\<rparr>)"
    by (auto simp: addOrUpdateItem_def hasContent_def replace_at_def content_of_def str_prop_def)
qed

theorem C2_append_upsert_witness:
  "findIndex (\<lambda>it. item_id it = item_id (demo_item ''i1'' ''markdown'' (js ''foo''))) (items \<lparr>items = []\<rparr>) = None
   \<and> content_of (demo_item ''i1'' ''markdown'' (js ''foo'')) = Some (js ''foo'')
   \<and> content_of (demo_item ''i1'' ''markdown'' (js ''bar'')) = Some (js ''bar'')
   \<and> (\<exists>t1 t2. addOrUpdateItem demo_runtime \<lparr>items = []\<rparr> (demo_item ''i1'' ''markdown'' (js ''foo'')) Append = Inr t1
         \<and> addOrUpdateItem demo_runtime t1 (demo_item ''i1'' ''markdown'' (js ''bar'')) Append = Inr t2
         \<and> content_of (last (items t2)) = Some (js ''foo'' @ js ''bar''))"
proof -
  have p: "findIndex (\<lambda>it. item_id it = item_id (demo_item ''i1'' ''markdown'' (js ''foo''))) (items \<lparr>items = []\<rparr>) = None
      \<and> item_id (demo_item ''i1'' ''markdown'' (js ''bar'')) = item_id (demo_item ''i1'' ''markdown'' (js ''foo''))
      \<and> content_of (demo_item ''i1'' ''markdown'' (js ''foo'')) = Some (js ''foo'')
      \<and> content_of (demo_item ''i1'' ''markdown'' (js ''bar'')) = Some (js ''bar'')"
    by (simp add: demo_item_def content_of_def str_prop_def)
  from p C2_append_upsert [of "demo_item ''i1'' ''markdown'' (js ''bar'')" "\<lparr>items = []\<rparr>" demo_runtime
      Append "demo_item ''i1'' ''markdown'' (js ''foo'')" "js ''foo''" "js ''bar''" 0]
  show ?thesis by blast
qed

section \<open>Step ordinal\<close>

lemma anchor_loop_Some:
  "anchor_loop R xs n = Some i \<Longrightarrow>
   i < n \<and> isPlanningAnchorTool R (xs ! i) \<and> (\<forall>j. i < j \<and> j < n \<longrightarrow> \<not> isPlanningAnchorTool R (xs ! j))"
proof (induction n)
  case 0
  then show ?case by simp
next
  case (Suc n)
  show ?case
  proof (cases "isPlanningAnchorTool R (xs ! n)")
    case True
    with Suc.prems show ?thesis by auto
  next
    case False
    with Suc.prems have "anchor_loop R xs n = Some i" by simp
    from Suc.IH [OF this] False show ?thesis
      by (auto simp: less_Suc_eq)
  qed
qed

lemma anchor_loop_None:
  "anchor_loop R xs n = None \<Longrightarrow> \<forall>j<n. \<not> isPlanningAnchorTool R (xs ! j)"
  by (induction n) (auto simp: less_Suc_eq split: if_splits)

lemma findIndex_Some_least:
  "findIndex P xs = Some k \<Longrightarrow> k < length xs \<and> P (xs ! k) \<and> (\<forall>j<k. \<not> P (xs ! j))"
proof (induction xs arbitrary: k)
  case Nil
  then show ?case by simp
next
  case (Cons x xs)
  show ?case
  proof (cases "P x")
    case True
    with Cons.prems show ?thesis by simp
  next
    case False
    with Cons.prems obtain k' where k': "findIndex P xs = Some k'" "k = Suc k'"
      by auto
    from Cons.IH [OF k'(1)] False k'(2) show ?thesis
      by (auto simp: nth_Cons less_Suc_eq_0_disj split: nat.splits)
  qed
qed

lemma planning_run_tool_calls:
  "it \<in> set (getPlanningToolItems R thread) \<Longrightarrow> is_tool_call it"
  by (auto simp: getPlanningToolItems_def Let_def split: option.splits dest: in_set_dropD)

lemma demo_run:
  "getPlanningToolItems demo_runtime demo_thread =
     [demo_tool_item ''k1'' ''generate_execution_plan'' (JStr (hd ANALYSIS_STEP_TITLES)),
      demo_tool_item ''k2'' ''web_search'' JNull]"
  by (simp add: demo_eval getPlanningToolItems_def getThreadItems_def isPlanningAnchorTool_def)

text \<open>
  Claim C4. The planning run is the suffix of the thread's tool_call items that starts at
  the last planning anchor, and is empty when there is no anchor. With an empty run the
  ordinal is 1 when the event's tool is \<^verbatim>\<open>generate_execution_plan\<close> and 0 otherwise.
  With a run that is not empty the ordinal is one more than the first position of the
  event's \<open>item_id\<close> in the run when it occurs there, and the length of the run plus one
  when it does not.
\<close>

theorem C4_step_order:
  "let tools = filter is_tool_call (getThreadItems thread);
       run = getPlanningToolItems R thread;
       ordinal = getToolStepOrderInThread R thread itemId toolName
   in ((\<forall>j<length tools. \<not> isPlanningAnchorTool R (tools ! j)) \<and> run = []
         \<and> ordinal = (if toolName = Some (js ''generate_execution_plan'') then 1 else 0))
      \<or> (\<exists>i<length tools. isPlanningAnchorTool R (tools ! i)
            \<and> (\<forall>j<length tools. i < j \<longrightarrow> \<not> isPlanningAnchorTool R (tools ! j))
            \<and> run = drop i tools \<and> run \<noteq> []
            \<and> ((\<exists>k<length run. item_id (run ! k) = itemId
                   \<and> (\<forall>j<k. item_id (run ! j) \<noteq> itemId) \<and> ordinal = k + 1)
                \<or> ((\<forall>it\<in>set run. item_id it \<noteq> itemId) \<and> ordinal = length run + 1)))"
proof -
  define tools where "tools = filter is_tool_call (getThreadItems thread)"
  define run where "run = getPlanningToolItems R thread"
  define ordinal where "ordinal = getToolStepOrderInThread R thread itemId toolName"
  have run_eq: "run = (case anchor_loop R tools (length tools) of
                         Some i \<Rightarrow> drop i tools | None \<Rightarrow> [])"
    unfolding run_def tools_def getPlanningToolItems_def Let_def by (rule refl)
  have ord_eq: "ordinal =
      (if run = [] then (if toolName = Some (js ''generate_execution_plan'') then 1 else 0)
       else (case findIndex (\<lambda>it. is_tool_call it \<and> item_id it = itemId) run of
               Some k \<Rightarrow> k + 1 | None \<Rightarrow> length run + 1))"
    unfolding ordinal_def run_def getToolStepOrderInThread_def Let_def by simp
  have tc: "\<And>it. it \<in> set run \<Longrightarrow> is_tool_call it"
    unfolding run_def by (rule planning_run_tool_calls)
  show ?thesis
  proof (cases "anchor_loop R tools (length tools)")
    case None
    then have "\<forall>j<length tools. \<not> isPlanningAnchorTool R (tools ! j)"
      by (rule anchor_loop_None)
    moreover have "run = []" using None run_eq by simp
    ultimately show ?thesis
      using ord_eq unfolding Let_def tools_def [symmetric] run_def [symmetric] ordinal_def [symmetric]
      by simp
  next
    case (Some i)
    from anchor_loop_Some [OF Some]
    have i: "i < length tools" "isPlanningAnchorTool R (tools ! i)"
      "\<forall>j<length tools. i < j \<longrightarrow> \<not> isPlanningAnchorTool R (tools ! j)"
      by auto
    have run: "run = drop i tools" using Some run_eq by simp
    with i(1) have ne: "run \<noteq> []" by simp
    have pos: "(\<exists>k<length run. item_id (run ! k) = itemId
                   \<and> (\<forall>j<k. item_id (run ! j) \<noteq> itemId) \<and> ordinal = k + 1)
                \<or> ((\<forall>it\<in>set run. item_id it \<noteq> itemId) \<and> ordinal = length run + 1)"
    proof (cases "findIndex (\<lambda>it. is_tool_call it \<and> item_id it = itemId) run")
      case None
      then have "\<forall>it\<in>set run. item_id it \<noteq> itemId"
        using tc by (auto simp: findIndex_None_iff)
      then show ?thesis using None ne ord_eq by simp
    next
      case (Some k)
      from findIndex_Some_least [OF Some]
      have k: "k < length run" "item_id (run ! k) = itemId"
        "\<forall>j<k. \<not> (is_tool_call (run ! j) \<and> item_id (run ! j) = itemId)"
        by auto
      have "\<forall>j<k. item_id (run ! j) \<noteq> itemId"
        using k(1,3) tc by (metis nth_mem order.strict_trans)
      then show ?thesis using Some ne ord_eq k by auto
    qed
    show ?thesis
      unfolding Let_def tools_def [symmetric] run_def [symmetric] ordinal_def [symmetric]
      using i run ne pos by blast
  qed
qed

theorem C4_step_order_witness:
  "getPlanningToolItems demo_runtime demo_thread =
     [demo_tool_item ''k1'' ''generate_execution_plan'' (JStr (hd ANALYSIS_STEP_TITLES)),
      demo_tool_item ''k2'' ''web_search'' JNull]
   \<and> getToolStepOrderInThread demo_runtime demo_thread (js ''k2'') (Some (js ''web_search'')) = 2
   \<and> getToolStepOrderInThread demo_runtime demo_thread (js ''k3'') (Some (js ''web_search'')) = 3"
  using C4_step_order [of demo_thread demo_runtime "js ''k2''" "Some (js ''web_search'')"]
    C4_step_order [of demo_thread demo_runtime "js ''k3''" "Some (js ''web_search'')"]
  by (simp add: demo_run getToolStepOrderInThread_def demo_tool_item_def is_tool_call_def)


section \<open>Targeted reasoning completion\<close>

lemma findIndex_cong_map:
  "map P xs = map Q ys \<Longrightarrow> findIndex P xs = findIndex Q ys"
proof (induction xs arbitrary: ys)
  case Nil
  then show ?case by simp
next
  case (Cons x xs)
  then obtain y ys' where ys: "ys = y # ys'" by (cases ys) auto
  with Cons.prems have "P x = Q y" and "map P xs = map Q ys'" by auto
  with Cons.IH [of ys'] ys show ?case by simp
qed

lemma payload_kind_swap:
  "(it :: ChatItem)\<lparr>component_type := k, payload := p\<rparr> = it\<lparr>payload := p, component_type := k\<rparr>"
  by (cases it) simp

lemma main_task_SomeD:
  "main_task s c t k = Some task \<Longrightarrow>
   \<exists>co th. s c = Some co \<and> threads co t = Some th \<and> map_of (tasks th) k = Some task"
  by (auto simp: main_task_def split: option.splits)

lemmas demo_eval2 = demo_eval demo_reasoning_def demo_event_def demo_store_def main_task_def

lemma demo_parse_reasoning:
  "JSON_parse demo_runtime (demo_reasoning ''foo'' False)
     = Some (JObj [(js ''content'', JStr (js ''foo'')), (js ''isComplete'', JBool False)])"
  by (simp add: demo_eval2)

lemma demo_parse_hello: "JSON_parse demo_runtime (js ''hello'') = None"
  by (simp add: demo_eval2)

text \<open>
  Claim C7. A \<^verbatim>\<open>reasoning_completed\<close> event finds the first item with the event's
  \<open>item_id\<close> in the task the event addresses and changes nothing but the content of its
  payload. When the content deserializes, the new content is the serialization of the
  parsed value's properties with \<open>isComplete\<close> set to true: for a parsed record every
  other field, the accumulated content among them, keeps its value. When it does not
  deserialize, the new content is the serialization of the record of the raw string as
  content and \<open>isComplete\<close> true.
\<close>

theorem C7_reasoning_completed:
  assumes "event e = js ''reasoning_completed''"
    and "s (conversation_id (data e)) = Some co"
    and "threads co (thread_id (data e)) = Some th"
    and "map_of (tasks th) (task_id (data e)) = Some task"
    and "findIndex (\<lambda>it. item_id it = item_id (data e)) (items task) = Some i"
    and "content_of (items task ! i) = Some c"
  shows "\<exists>c'. processSSEEvent R s e =
       Inr (s(conversation_id (data e) \<mapsto>
         co\<lparr>threads := (threads co)(thread_id (data e) \<mapsto>
           th\<lparr>tasks := AList.update (task_id (data e))
             (task\<lparr>items := (items task)[i := (items task ! i)
                \<lparr>payload := AList.update (js ''content'') (JStr c') (payload (items task ! i))\<rparr>]\<rparr>)
             (tasks th)\<rparr>)\<rparr>))
     \<and> (\<forall>parsed. JSON_parse R c = Some parsed \<longrightarrow>
            c' = JSON_stringify R (JObj (obj_set (js ''isComplete'') (JBool True) (spread parsed))))
     \<and> (\<forall>kvs. JSON_parse R c = Some (JObj kvs) \<longrightarrow>
            (\<exists>kvs'. c' = JSON_stringify R (JObj kvs')
               \<and> map_of kvs' (js ''isComplete'') = Some (JBool True)
               \<and> (\<forall>k. k \<noteq> js ''isComplete'' \<longrightarrow> map_of kvs' k = map_of kvs k)))
     \<and> (JSON_parse R c = None \<longrightarrow>
            c' = JSON_stringify R (JObj [(js ''content'', JStr c), (js ''isComplete'', JBool True)]))"
proof -
  let ?c' = "case JSON_parse R c of
               Some parsed \<Rightarrow> JSON_stringify R
                 (JObj (obj_set (js ''isComplete'') (JBool True) (spread parsed)))
             | None \<Rightarrow> JSON_stringify R
                 (JObj [(js ''content'', JStr c), (js ''isComplete'', JBool True)])"
  have step: "processSSEEvent R s e =
       Inr (s(conversation_id (data e) \<mapsto>
         co\<lparr>threads := (threads co)(thread_id (data e) \<mapsto>
           th\<lparr>tasks := AList.update (task_id (data e))
             (task\<lparr>items := (items task)[i := (items task ! i)
                \<lparr>payload := AList.update (js ''content'') (JStr ?c') (payload (items task ! i))\<rparr>]\<rparr>)
             (tasks th)\<rparr>)\<rparr>))"
    by (simp add: reasoning_completed_step [where s = s and R = R, OF assms(1-4)]
        markReasoningComplete_found [OF assms(5,6)])
  have obj: "\<forall>kvs. JSON_parse R c = Some (JObj kvs) \<longrightarrow>
            (\<exists>kvs'. ?c' = JSON_stringify R (JObj kvs')
               \<and> map_of kvs' (js ''isComplete'') = Some (JBool True)
               \<and> (\<forall>k. k \<noteq> js ''isComplete'' \<longrightarrow> map_of kvs' k = map_of kvs k))"
  proof (intro allI impI)
    fix kvs assume p: "JSON_parse R c = Some (JObj kvs)"
    show "\<exists>kvs'. ?c' = JSON_stringify R (JObj kvs')
               \<and> map_of kvs' (js ''isComplete'') = Some (JBool True)
               \<and> (\<forall>k. k \<noteq> js ''isComplete'' \<longrightarrow> map_of kvs' k = map_of kvs k)"
      by (rule exI [of _ "obj_set (js ''isComplete'') (JBool True) kvs"]) (simp add: p)
  qed
  show ?thesis
    by (rule exI [of _ ?c']) (use step obj in auto)
qed

theorem C7_reasoning_completed_witness:
  "JSON_parse demo_runtime (demo_reasoning ''foo'' False)
     = Some (JObj [(js ''content'', JStr (js ''foo'')), (js ''isComplete'', JBool False)])
   \<and> (\<exists>s'. processSSEEvent demo_runtime
          (demo_store (demo_item ''r1'' ''reasoning'' (demo_reasoning ''foo'' False)))
          (demo_event ''reasoning_completed'' ''r1'' ''t1'' []) = Inr s'
        \<and> main_task s' (js ''c1'') (js ''th1'') (js ''t1'')
            = Some \<lparr>items = [demo_item ''r1'' ''reasoning'' (demo_reasoning ''foo'' True)]\<rparr>)"
proof -
  let ?it = "demo_item ''r1'' ''reasoning'' (demo_reasoning ''foo'' False)"
  let ?e = "demo_event ''reasoning_completed'' ''r1'' ''t1'' []"
  let ?co = "\<lparr>threads = [js ''th1'' \<mapsto> \<lparr>tasks = [(js ''t1'', \<lparr>items = [?it]\<rparr>)]\<rparr>],
      sections = Map.empty\<rparr>"
  have 1: "event ?e = js ''reasoning_completed''" by (simp add: demo_event_def)
  have 2: "demo_store ?it (conversation_id (data ?e)) = Some ?co"
    by (simp add: demo_event_def demo_store_def)
  have 3: "threads ?co (thread_id (data ?e)) = Some \<lparr>tasks = [(js ''t1'', \<lparr>items = [?it]\<rparr>)]\<rparr>"
    by (simp add: demo_event_def)
  have 4: "map_of (tasks \<lparr>tasks = [(js ''t1'', \<lparr>items = [?it]\<rparr>)]\<rparr>) (task_id (data ?e))
      = Some \<lparr>items = [?it]\<rparr>"
    by (simp add: demo_event_def)
  have 5: "findIndex (\<lambda>it. item_id it = item_id (data ?e)) (items \<lparr>items = [?it]\<rparr>) = Some 0"
    by (simp add: demo_event_def demo_item_def)
  have 6: "content_of (items \<lparr>items = [?it]\<rparr> ! 0) = Some (demo_reasoning ''foo'' False)"
    by (simp add: demo_item_def content_of_def str_prop_def)
  from C7_reasoning_completed [where s = "demo_store ?it" and R = demo_runtime, OF 1 2 3 4 5 6]
  obtain c' where
    r: "processSSEEvent demo_runtime (demo_store ?it) ?e =
       Inr ((demo_store ?it)(conversation_id (data ?e) \<mapsto>
         ?co\<lparr>threads := (threads ?co)(thread_id (data ?e) \<mapsto>
           \<lparr>tasks = [(js ''t1'', \<lparr>items = [?it]\<rparr>)]\<rparr>\<lparr>tasks := AList.update (task_id (data ?e))
             (\<lparr>items = [?it]\<rparr>\<lparr>items := (items \<lparr>items = [?it]\<rparr>)[0 := (items \<lparr>items = [?it]\<rparr> ! 0)
                \<lparr>payload := AList.update (js ''content'') (JStr c')
                   (payload (items \<lparr>items = [?it]\<rparr> ! 0))\<rparr>]\<rparr>)
             (tasks \<lparr>tasks = [(js ''t1'', \<lparr>items = [?it]\<rparr>)]\<rparr>)\<rparr>)\<rparr>))"
    and c: "\<forall>parsed. JSON_parse demo_runtime (demo_reasoning ''foo'' False) = Some parsed \<longrightarrow>
            c' = JSON_stringify demo_runtime
              (JObj (obj_set (js ''isComplete'') (JBool True) (spread parsed)))"
    by blast
  from c demo_parse_reasoning have "c' = demo_reasoning ''foo'' True"
    by (simp add: demo_eval2)
  with r demo_parse_reasoning show ?thesis
    by (simp add: main_task_def demo_event_def demo_item_def)
qed

text \<open>
  Claim C10. The completion of a \<^verbatim>\<open>reasoning_completed\<close> event does not look at the
  component kind of the item it finds: whatever the kind, the item keeps it and its content
  becomes the serialized record with \<open>isComplete\<close> true (the parsed value's properties when
  the content deserializes, the raw string wrapped otherwise), and giving the item any
  other kind changes nothing else in what \<^verbatim>\<open>markReasoningComplete\<close> returns.
\<close>

theorem C10_completion_ignores_kind:
  assumes "event e = js ''reasoning_completed''"
    and "main_task s (conversation_id (data e)) (thread_id (data e)) (task_id (data e)) = Some task"
    and "findIndex (\<lambda>it. item_id it = item_id (data e)) (items task) = Some i"
    and "content_of (items task ! i) = Some c"
    and "component_type (items task ! i) = kind"
  shows "\<exists>s' task'. processSSEEvent R s e = Inr s'
     \<and> main_task s' (conversation_id (data e)) (thread_id (data e)) (task_id (data e)) = Some task'
     \<and> component_type (items task' ! i) = kind
     \<and> content_of (items task' ! i) =
         Some (case JSON_parse R c of
                 Some parsed \<Rightarrow> JSON_stringify R
                   (JObj (obj_set (js ''isComplete'') (JBool True) (spread parsed)))
               | None \<Rightarrow> JSON_stringify R
                   (JObj [(js ''content'', JStr c), (js ''isComplete'', JBool True)]))
     \<and> (\<forall>kind'. markReasoningComplete R
            (task\<lparr>items := (items task)[i := (items task ! i)\<lparr>component_type := kind'\<rparr>]\<rparr>)
            (item_id (data e)) =
          Inr (task'\<lparr>items := (items task')[i := (items task' ! i)\<lparr>component_type := kind'\<rparr>]\<rparr>))"
proof -
  from main_task_SomeD [OF assms(2)] obtain co th where
    path: "s (conversation_id (data e)) = Some co" "threads co (thread_id (data e)) = Some th"
      "map_of (tasks th) (task_id (data e)) = Some task"
    by blast
  let ?c' = "case JSON_parse R c of
               Some parsed \<Rightarrow> JSON_stringify R
                 (JObj (obj_set (js ''isComplete'') (JBool True) (spread parsed)))
             | None \<Rightarrow> JSON_stringify R
                 (JObj [(js ''content'', JStr c), (js ''isComplete'', JBool True)])"
  let ?task' = "task\<lparr>items := (items task)[i := (items task ! i)
       \<lparr>payload := AList.update (js ''content'') (JStr ?c') (payload (items task ! i))\<rparr>]\<rparr>"
  let ?th' = "th\<lparr>tasks := AList.update (task_id (data e)) ?task' (tasks th)\<rparr>"
  let ?co' = "co\<lparr>threads := (threads co)(thread_id (data e) \<mapsto> ?th')\<rparr>"
  have i: "i < length (items task)"
    using findIndex_Some_less [OF assms(3)] by simp
  have step: "processSSEEvent R s e = Inr (s(conversation_id (data e) \<mapsto> ?co'))"
    by (simp add: reasoning_completed_step [where s = s and R = R, OF assms(1) path]
        markReasoningComplete_found [OF assms(3,4)])
  have retag: "markReasoningComplete R
            (task\<lparr>items := (items task)[i := (items task ! i)\<lparr>component_type := kind'\<rparr>]\<rparr>)
            (item_id (data e)) =
          Inr (?task'\<lparr>items := (items ?task')[i := (items ?task' ! i)\<lparr>component_type := kind'\<rparr>]\<rparr>)"
    for kind'
  proof -
    let ?t2 = "task\<lparr>items := (items task)[i := (items task ! i)\<lparr>component_type := kind'\<rparr>]\<rparr>"
    have "map (\<lambda>it. item_id it = item_id (data e)) (items ?t2)
        = map (\<lambda>it. item_id it = item_id (data e)) (items task)"
      using i by (simp add: map_update list_update_same_conv)
    then have f: "findIndex (\<lambda>it. item_id it = item_id (data e)) (items ?t2) = Some i"
      using assms(3) findIndex_cong_map by metis
    have c: "content_of (items ?t2 ! i) = Some c"
      using i assms(4) by (simp add: content_of_def)
    show ?thesis
      using i by (simp add: markReasoningComplete_found [OF f c] payload_kind_swap)
  qed
  have mt: "main_task (s(conversation_id (data e) \<mapsto> ?co')) (conversation_id (data e))
      (thread_id (data e)) (task_id (data e)) = Some ?task'"
    by (simp add: main_task_def update_conv')
  show ?thesis
    apply (rule exI [of _ "s(conversation_id (data e) \<mapsto> ?co')"])
    apply (rule exI [of _ ?task'])
    using step i assms(5) retag mt
    apply simp
    done
qed

theorem C10_completion_ignores_kind_witness:
  "content_of (demo_item ''m1'' ''markdown'' (js ''hello'')) = Some (js ''hello'')
   \<and> component_type (demo_item ''m1'' ''markdown'' (js ''hello'')) = Some (js ''markdown'')
   \<and> JSON_parse demo_runtime (js ''hello'') = None
   \<and> (\<exists>s'. processSSEEvent demo_runtime (demo_store (demo_item ''m1'' ''markdown'' (js ''hello'')))
          (demo_event ''reasoning_completed'' ''m1'' ''t1'' []) = Inr s'
        \<and> (\<exists>task'. main_task s' (js ''c1'') (js ''th1'') (js ''t1'') = Some task'
              \<and> component_type (items task' ! 0) = Some (js ''markdown'')
              \<and> content_of (items task' ! 0) = Some (demo_stringify
                   (JObj [(js ''content'', JStr (js ''hello'')), (js ''isComplete'', JBool True)]))))"
proof -
  let ?it = "demo_item ''m1'' ''markdown'' (js ''hello'')"
  let ?e = "demo_event ''reasoning_completed'' ''m1'' ''t1'' []"
  have 1: "event ?e = js ''reasoning_completed''" by (simp add: demo_event_def)
  have 2: "main_task (demo_store ?it) (conversation_id (data ?e)) (thread_id (data ?e))
      (task_id (data ?e)) = Some \<lparr>items = [?it]\<rparr>"
    by (simp add: demo_event_def demo_store_def main_task_def)
  have 3: "findIndex (\<lambda>it. item_id it = item_id (data ?e)) (items \<lparr>items = [?it]\<rparr>) = Some 0"
    by (simp add: demo_event_def demo_item_def)
  have 4: "content_of (items \<lparr>items = [?it]\<rparr> ! 0) = Some (js ''hello'')"
    by (simp add: demo_item_def content_of_def str_prop_def)
  have 5: "component_type (items \<lparr>items = [?it]\<rparr> ! 0) = Some (js ''markdown'')"
    by (simp add: demo_item_def)
  from C10_completion_ignores_kind [where R = demo_runtime, OF 1 2 3 4 5] 4 5 demo_parse_hello
  show ?thesis
    by (auto simp: demo_event_def demo_runtime_def)
qed


section \<open>Item merge policy: append-reasoning\<close>

lemma get_prop_Inl_iff: "get_prop v k = Inl e \<longleftrightarrow> v = JNull \<and> e = TypeError"
  by (cases v) auto

lemma addOrUpdateItem_returns: "\<exists>task'. addOrUpdateItem R task newItem ev = Inr task'"
  by (simp add: addOrUpdateItem_def Let_def try_catch_def bind_res_def
      split: option.splits sum.splits)







section \<open>Paths, routing and what a step keeps\<close>



lemma ensurePath_cases:
  "\<exists>co th task. ensurePath s d = (s(conversation_id d \<mapsto> co), co, th, task)
     \<and> threads co (thread_id d) = Some th
     \<and> map_of (tasks th) (task_id d) = Some task
     \<and> sections co = (case s (conversation_id d) of None \<Rightarrow> Map.empty | Some c0 \<Rightarrow> sections c0)
     \<and> (\<forall>t. t \<noteq> thread_id d \<longrightarrow>
           threads co t = (case s (conversation_id d) of None \<Rightarrow> None | Some c0 \<Rightarrow> threads c0 t))
     \<and> ((map_of (thread_tasks s (conversation_id d) (thread_id d)) (task_id d) = Some task
          \<and> tasks th = thread_tasks s (conversation_id d) (thread_id d))
        \<or> (map_of (thread_tasks s (conversation_id d) (thread_id d)) (task_id d) = None
          \<and> task = \<lparr>items = []\<rparr>
          \<and> tasks th = obj_insert (task_id d) \<lparr>items = []\<rparr>
               (thread_tasks s (conversation_id d) (thread_id d))))"
  by (auto simp: ensurePath_def Let_def thread_tasks_def obj_set_def map_of_obj_insert
      split: option.splits)



lemma thread_tasks_None: "s c = None \<Longrightarrow> thread_tasks s c t = []"
  by (simp add: thread_tasks_def)

lemma ensurePath_co_tasks:
  assumes "ensurePath s d = (s1, co, th, task)"
  shows "s1 = s(conversation_id d \<mapsto> co)"
    and "threads co (thread_id d) = Some th"
    and "map_of (tasks th) (task_id d) = Some task"
    and "sections co = (case s (conversation_id d) of None \<Rightarrow> Map.empty | Some c0 \<Rightarrow> sections c0)"
    and "t \<noteq> thread_id d \<Longrightarrow> co_tasks co t = thread_tasks s (conversation_id d) t"
    and "co_tasks co (thread_id d) = tasks th"
    and "(map_of (thread_tasks s (conversation_id d) (thread_id d)) (task_id d) = Some task
          \<and> tasks th = thread_tasks s (conversation_id d) (thread_id d))
        \<or> (map_of (thread_tasks s (conversation_id d) (thread_id d)) (task_id d) = None
          \<and> task = \<lparr>items = []\<rparr>
          \<and> tasks th = obj_insert (task_id d) \<lparr>items = []\<rparr>
               (thread_tasks s (conversation_id d) (thread_id d)))"
  using ensurePath_cases [of s d] assms
  by (auto simp: co_tasks_def thread_tasks_def split: option.splits)



lemma component_type_set_content [simp]: "component_type (set_content c it) = component_type it"
  by (simp add: set_content_def)

lemma task_id_set_content [simp]: "task_id (set_content c it) = task_id it"
  by (simp add: set_content_def)

lemma item_id_set_content [simp]: "item_id (set_content c it) = item_id it"
  by (simp add: set_content_def)

lemma section_worthy_set_content [simp]: "section_worthy R (set_content c it) = section_worthy R it"
  by (simp add: section_worthy_def)



lemma markReasoningComplete_returns: "\<exists>task'. markReasoningComplete R task iid = Inr task'"
  by (simp add: markReasoningComplete_def Let_def try_catch_def bind_res_def
      split: option.splits sum.splits)


lemma ensureSection_cases:
  "\<exists>sec stask. ensureSection co kind k = (co\<lparr>sections := (sections co)(kind \<mapsto> sec)\<rparr>, sec, stask)
     \<and> map_of (tasks sec) k = Some stask
     \<and> (let old = (case sections co kind of None \<Rightarrow> [] | Some th \<Rightarrow> tasks th) in
          (map_of old k = Some stask \<and> tasks sec = old)
          \<or> (map_of old k = None \<and> stask = \<lparr>items = []\<rparr>
              \<and> tasks sec = obj_insert k \<lparr>items = []\<rparr> old))"
  by (auto simp: ensureSection_def Let_def obj_set_def map_of_obj_insert split: option.splits)

lemma handleChatItemEvent_main:
  assumes "\<not> routed_to_section R d" and "ensurePath s d = (s1, co, th, task)"
  shows "\<exists>task'. addOrUpdateItem R task d ev = Inr task'
     \<and> handleChatItemEvent R s d ev =
         Inr (s(conversation_id d \<mapsto>
           co\<lparr>threads := (threads co)(thread_id d \<mapsto> put_task (task_id d) task' th)\<rparr>))"
proof -
  obtain task' where t: "addOrUpdateItem R task d ev = Inr task'"
    using addOrUpdateItem_returns by blast
  have s1: "s1 = s(conversation_id d \<mapsto> co)"
    using ensurePath_co_tasks(1) [OF assms(2)] .
  show ?thesis
    using assms t s1
    by (auto simp: handleChatItemEvent_def routed_to_section_def store_task_def
        split: option.splits)
qed

lemma handleChatItemEvent_section:
  assumes "component_type d = Some kind" "kind \<noteq> []" "kind \<in> set (AGENT_SECTION_COMPONENT_TYPE R)"
    and "ensurePath s d = (s1, co, th, task)"
    and "ensureSection co kind (task_id d) = (co1, sec, stask)"
  shows "\<exists>stask'. addOrUpdateItem R stask d ev = Inr stask'
     \<and> handleChatItemEvent R s d ev =
         Inr (s(conversation_id d \<mapsto>
           co\<lparr>sections := (sections co)(kind \<mapsto> put_task (task_id d) stask' sec)\<rparr>))"
proof -
  obtain stask' where t: "addOrUpdateItem R stask d ev = Inr stask'"
    using addOrUpdateItem_returns by blast
  have s1: "s1 = s(conversation_id d \<mapsto> co)"
    using ensurePath_co_tasks(1) [OF assms(4)] .
  have co1: "co1 = co\<lparr>sections := (sections co)(kind \<mapsto> sec)\<rparr>"
    using ensureSection_cases [of co kind "task_id d"] assms(5) by auto
  show ?thesis
    using assms t s1 co1
    by (auto simp: handleChatItemEvent_def)
qed







lemma conv_items_sections_update [simp]:
  "conv_items (co\<lparr>sections := x\<rparr>) = conv_items co"
  by (simp add: conv_items_def)






lemma handleChatItemEvent_returns: "\<exists>s'. handleChatItemEvent R s d ev = Inr s'"
proof -
  obtain s1 co th task where e: "ensurePath s d = (s1, co, th, task)"
    by (metis prod_cases4)
  show ?thesis
  proof (cases "routed_to_section R d")
    case False
    from handleChatItemEvent_main [OF False e, of ev] show ?thesis by blast
  next
    case True
    then obtain kind where k: "component_type d = Some kind" "kind \<noteq> []"
      "kind \<in> set (AGENT_SECTION_COMPONENT_TYPE R)"
      by (auto simp: routed_to_section_def split: option.splits)
    obtain co1 sec stask where es: "ensureSection co kind (task_id d) = (co1, sec, stask)"
      by (metis prod_cases3)
    from handleChatItemEvent_section [OF k e es, of ev] show ?thesis by blast
  qed
qed

lemma processSSEEvent_returns: "\<exists>s'. processSSEEvent R s e = Inr s'"
proof -
  obtain s1 co th task where ep: "ensurePath s (data e) = (s1, co, th, task)"
    by (metis prod_cases4)
  obtain task' where m: "markReasoningComplete R task (item_id (data e)) = Inr task'"
    using markReasoningComplete_returns by blast
  show ?thesis
    unfolding processSSEEvent_def Let_def
    using ep m by (auto simp: handleChatItemEvent_returns)
qed

lemma process_all_returns: "\<exists>s'. process_all R s es = Inr s'"
proof (induction es arbitrary: s)
  case Nil
  then show ?case by simp
next
  case (Cons e es)
  obtain s1 where "processSSEEvent R s e = Inr s1"
    using processSSEEvent_returns by blast
  with Cons.IH [of s1] show ?case by simp
qed


lemma co_tasks_complete:
  "co_tasks (complete_conversation R co) t =
     map (\<lambda>(k, task). (k, markAllReasoningComplete R task)) (co_tasks co t)"
  by (simp add: co_tasks_def complete_conversation_def complete_thread_def split: option.splits)
















section \<open>Section projector\<close>












section \<open>Batch replay\<close>

lemma ensurePath_local:
  assumes "s (conversation_id d) = t (conversation_id d)"
  shows "snd (ensurePath s d) = snd (ensurePath t d)"
  using assms by (simp add: ensurePath_def Let_def split: option.splits prod.splits)

lemma ensurePath_fst: "fst (ensurePath s d) = s(conversation_id d \<mapsto> fst (snd (ensurePath s d)))"
  by (simp add: ensurePath_def Let_def split: option.splits prod.splits)

lemma handle_result:
  "\<exists>X. \<forall>s. (\<forall>co th task. snd (ensurePath s d) = (co, th, task) \<longrightarrow>
       handleChatItemEvent R s d ev = Inr (s(conversation_id d \<mapsto> X co th task)))"
proof -
  let ?X = "\<lambda>co th task.
     (case component_type d of
        Some componentType \<Rightarrow>
          if componentType \<noteq> [] \<and> componentType \<in> set (AGENT_SECTION_COMPONENT_TYPE R) then
            (case ensureSection co componentType (task_id d) of
               (conversation1, section, sectionTask) \<Rightarrow>
                 (case addOrUpdateItem R sectionTask d ev of
                    Inr sectionTask' \<Rightarrow> conversation1\<lparr>sections := (sections conversation1)
                        (componentType \<mapsto> put_task (task_id d) sectionTask' section)\<rparr>
                  | Inl e \<Rightarrow> co))
          else (case addOrUpdateItem R task d ev of
                  Inr task' \<Rightarrow> co\<lparr>threads := (threads co)(thread_id d \<mapsto> put_task (task_id d) task' th)\<rparr>
                | Inl e \<Rightarrow> co)
      | None \<Rightarrow> (case addOrUpdateItem R task d ev of
                  Inr task' \<Rightarrow> co\<lparr>threads := (threads co)(thread_id d \<mapsto> put_task (task_id d) task' th)\<rparr>
                | Inl e \<Rightarrow> co))"
  have "handleChatItemEvent R s d ev = Inr (s(conversation_id d \<mapsto> ?X co th task))"
    if e: "snd (ensurePath s d) = (co, th, task)" for s co th task
  proof -
    from e ensurePath_fst [of s d] have ep: "ensurePath s d = (s(conversation_id d \<mapsto> co), co, th, task)"
      by (cases "ensurePath s d") auto
    have a: "\<exists>x. addOrUpdateItem R tk d ev = Inr x" for tk
      by (rule addOrUpdateItem_returns)
    show ?thesis
    proof (cases "component_type d")
      case None
      from a [of task] obtain x where "addOrUpdateItem R task d ev = Inr x" ..
      with None ep show ?thesis by (simp add: handleChatItemEvent_def store_task_def)
    next
      case (Some ct)
      show ?thesis
      proof (cases "ct \<noteq> [] \<and> ct \<in> set (AGENT_SECTION_COMPONENT_TYPE R)")
        case False
        from a [of task] obtain x where "addOrUpdateItem R task d ev = Inr x" ..
        with Some False ep show ?thesis
          by (auto simp: handleChatItemEvent_def store_task_def)
      next
        case True
        obtain co1 sec stask where es: "ensureSection co ct (task_id d) = (co1, sec, stask)"
          by (metis prod_cases3)
        from a [of stask] obtain x where "addOrUpdateItem R stask d ev = Inr x" ..
        with Some True ep es show ?thesis
          by (simp add: handleChatItemEvent_def)
      qed
    qed
  qed
  then show ?thesis by (intro exI [of _ ?X] allI impI)
qed

lemma handle_agree:
  assumes "s k = t k"
    and "handleChatItemEvent R s d ev = Inr s'" "handleChatItemEvent R t d ev = Inr t'"
  shows "s' k = t' k"
proof -
  from handle_result [of d R ev] obtain X where
    X: "\<And>s co th task. snd (ensurePath s d) = (co, th, task) \<Longrightarrow>
       handleChatItemEvent R s d ev = Inr (s(conversation_id d \<mapsto> X co th task))"
    by blast
  obtain co th task where e: "snd (ensurePath s d) = (co, th, task)" by (metis prod_cases3)
  show ?thesis
  proof (cases "k = conversation_id d")
    case True
    with assms(1) ensurePath_local [of s d t] e have "snd (ensurePath t d) = (co, th, task)"
      by simp
    from X [OF e] X [OF this] assms(2,3) True show ?thesis by auto
  next
    case False
    obtain co' th' task' where e': "snd (ensurePath t d) = (co', th', task')"
      by (metis prod_cases3)
    from X [OF e] X [OF e'] assms False show ?thesis by auto
  qed
qed

lemma ensurePath_agree:
  assumes "s k = t k" "ensurePath s d = (s1, co, th, task)" "ensurePath t d = (t1, co', th', task')"
  shows "s1 k = t1 k" and "k = conversation_id d \<Longrightarrow> co = co' \<and> th = th' \<and> task = task'"
proof -
  show "co = co' \<and> th = th' \<and> task = task'" if "k = conversation_id d"
    using ensurePath_local [of s d t] assms that by simp
  with ensurePath_fst [of s d] ensurePath_fst [of t d] assms
  show "s1 k = t1 k" by (cases "k = conversation_id d") auto
qed

lemma chat_item_ids [simp]:
  "conversation_id (chat_item c d p) = conversation_id d"
  "thread_id (chat_item c d p) = thread_id d"
  "task_id (chat_item c d p) = task_id d"
  "item_id (chat_item c d p) = item_id d"
  "component_type (chat_item c d p) = c"
  "payload (chat_item c d p) = p"
  "role (chat_item c d p) = role d"
  by (simp_all add: chat_item_def)

lemma process_agree:
  assumes k: "s k = t k"
    and r: "processSSEEvent R s e = Inr s'" "processSSEEvent R t e = Inr t'"
  shows "s' k = t' k"
proof -
  obtain s1 co th task where es: "ensurePath s (data e) = (s1, co, th, task)"
    by (metis prod_cases4)
  obtain t1 co' th' task' where et: "ensurePath t (data e) = (t1, co', th', task')"
    by (metis prod_cases4)
  note ag = ensurePath_agree [where s = s and t = t, OF k es et]
  have s1: "s1 = s(conversation_id (data e) \<mapsto> co)" and t1: "t1 = t(conversation_id (data e) \<mapsto> co')"
    using ensurePath_co_tasks(1) [OF es] ensurePath_co_tasks(1) [OF et] by auto
  have form: "(\<exists>d ev. \<forall>u. processSSEEvent R u e = handleChatItemEvent R u d ev)
      \<or> ((event e = js ''tool_call_started'' \<or> event e = js ''tool_call_completed'')
          \<and> event e \<noteq> js ''component_generator'' \<and> event e \<notin> set MARKDOWN_EVENTS
          \<and> event e \<noteq> js ''reasoning'' \<and> event e \<noteq> js ''reasoning_started''
          \<and> event e \<noteq> js ''reasoning_completed'')
      \<or> (event e = js ''reasoning_completed''
          \<and> event e \<noteq> js ''component_generator'' \<and> event e \<notin> set MARKDOWN_EVENTS
          \<and> event e \<noteq> js ''reasoning'' \<and> event e \<noteq> js ''reasoning_started'')
      \<or> (\<forall>u. processSSEEvent R u e = Inr u)"
  proof (cases "event e = js ''component_generator''")
    case True
    show ?thesis
    proof (cases "str_prop (payload (data e)) (js ''component_type'') = Some (js ''scheduled_task_result'')
            \<or> str_prop (payload (data e)) (js ''component_type'') = Some (js ''subagent_conversation'')")
      case a: True
      have "\<forall>u. processSSEEvent R u e = handleChatItemEvent R u
          (chat_item (str_prop (payload (data e)) (js ''component_type'')) (data e) (payload (data e)))
          Replace"
        using True a by (simp add: processSSEEvent_def Let_def)
      then show ?thesis by blast
    next
      case a: False
      have "\<forall>u. processSSEEvent R u e = handleChatItemEvent R u
          (chat_item (str_prop (payload (data e)) (js ''component_type'')) (data e) (payload (data e)))
          Append"
        using True a by (simp add: processSSEEvent_def Let_def)
      then show ?thesis by blast
    qed
  next
    case ng: False
    show ?thesis
    proof (cases "event e \<in> set MARKDOWN_EVENTS")
      case True
      have "\<forall>u. processSSEEvent R u e = handleChatItemEvent R u
          (chat_item (Some (js ''markdown'')) (data e) (payload (data e))) Append"
        using True ng by (simp add: processSSEEvent_def Let_def)
      then show ?thesis by blast
    next
      case nm: False
      show ?thesis
      proof (cases "event e = js ''reasoning''")
        case True
        have "\<forall>u. processSSEEvent R u e = handleChatItemEvent R u
          (chat_item (Some (js ''reasoning'')) (data e)
             [(js ''content'', JStr (JSON_stringify R (reasoning_record (payload (data e)))))])
          AppendReasoning"
          using True ng nm by (simp add: processSSEEvent_def Let_def)
        then show ?thesis by blast
      next
        case nr: False
        show ?thesis
        proof (cases "event e = js ''reasoning_started''")
          case True
          have "\<forall>u. processSSEEvent R u e = handleChatItemEvent R u
            (chat_item (Some (js ''reasoning'')) (data e)
               [(js ''content'', JStr (JSON_stringify R
                  (JObj [(js ''content'', JStr []), (js ''isComplete'', JBool False)])))])
            Replace"
            using True ng nm nr by (simp add: processSSEEvent_def Let_def)
          then show ?thesis by blast
        next
          case ns: False
          show ?thesis
          proof (cases "event e = js ''reasoning_completed''")
            case True
            with ng nm nr ns show ?thesis by simp
          next
            case nc: False
            show ?thesis
            proof (cases "event e = js ''tool_call_started'' \<or> event e = js ''tool_call_completed''")
              case True
              with ng nm nr ns nc show ?thesis by simp
            next
              case False
              with ng nm nr ns nc have "\<forall>u. processSSEEvent R u e = Inr u"
                by (simp add: processSSEEvent_def Let_def)
              then show ?thesis by blast
            qed
          qed
        qed
      qed
    qed
  qed
  then consider (item) d ev where "processSSEEvent R s e = handleChatItemEvent R s d ev"
      "processSSEEvent R t e = handleChatItemEvent R t d ev"
    | (tool) "event e = js ''tool_call_started'' \<or> event e = js ''tool_call_completed''"
        "event e \<noteq> js ''component_generator''" "event e \<notin> set MARKDOWN_EVENTS"
        "event e \<noteq> js ''reasoning''" "event e \<noteq> js ''reasoning_started''"
        "event e \<noteq> js ''reasoning_completed''"
    | (completed) "event e = js ''reasoning_completed''"
        "event e \<noteq> js ''component_generator''" "event e \<notin> set MARKDOWN_EVENTS"
        "event e \<noteq> js ''reasoning''" "event e \<noteq> js ''reasoning_started''"
    | (noop) "processSSEEvent R s e = Inr s" "processSSEEvent R t e = Inr t"
    by blast
  then show ?thesis
  proof cases
    case (item d ev)
    with r have "handleChatItemEvent R s d ev = Inr s'" "handleChatItemEvent R t d ev = Inr t'"
      by simp_all
    then show ?thesis by (rule handle_agree [where s = s and t = t, OF k])
  next
    case noop
    with r k show ?thesis by simp
  next
    case completed
    obtain x where x: "markReasoningComplete R task (item_id (data e)) = Inr x"
      using markReasoningComplete_returns by blast
    obtain y where y: "markReasoningComplete R task' (item_id (data e)) = Inr y"
      using markReasoningComplete_returns by blast
    from r(1) completed es x have s': "s' = store_task s1 co th (data e) x"
      by (simp add: processSSEEvent_def Let_def)
    from r(2) completed et y have t': "t' = store_task t1 co' th' (data e) y"
      by (simp add: processSSEEvent_def Let_def)
    show ?thesis
    proof (cases "k = conversation_id (data e)")
      case True
      with ag(2) x y have "co = co'" "th = th'" "x = y" by auto
      with s' t' True show ?thesis by (simp add: store_task_def)
    next
      case False
      with s' t' ag(1) show ?thesis by (simp add: store_task_def)
    qed
  next
    case tool
    show ?thesis
    proof (cases "k = conversation_id (data e)")
      case True
      with ag(2) have eq: "co = co'" "th = th'" "task = task'" by auto
      let ?d = "chat_item (Some (js ''tool_call'')) (data e)
            [(js ''content'', JStr (JSON_stringify R (JObj (obj_set (js ''step_label'')
               (label_val (if shouldApplyAnalysisStepTemplate R th (str_prop (payload (data e)) (js ''tool_name''))
                  then buildPlannedStepLabel
                    (getToolStepOrderInThread R th (item_id (data e)) (str_prop (payload (data e)) (js ''tool_name'')))
                    (detectCompanyNameInThread th (task_title (data e)))
                    (detectStepTemplateInThread R th)
                  else None)) (payload (data e))))))]"
      from r(1) tool es have a: "handleChatItemEvent R s1 ?d Replace = Inr s'"
        by (simp add: processSSEEvent_def Let_def split del: if_split)
      from et eq have et': "ensurePath t (data e) = (t1, co, th, task)" by simp
      from r(2) tool et' have b: "handleChatItemEvent R t1 ?d Replace = Inr t'"
        by (simp add: processSSEEvent_def Let_def split del: if_split)
      from handle_agree [where s = s1 and t = t1, OF ag(1) a b] show ?thesis .
    next
      case False
      from r(1) tool es obtain d where
        a: "handleChatItemEvent R s1 d Replace = Inr s'" "conversation_id d = conversation_id (data e)"
        by (simp add: processSSEEvent_def Let_def)
      from r(2) tool et obtain d' where
        b: "handleChatItemEvent R t1 d' Replace = Inr t'" "conversation_id d' = conversation_id (data e)"
        by (simp add: processSSEEvent_def Let_def)
      from handle_result [of d R Replace] a False have "s' k = s1 k"
        by (metis fun_upd_other prod_cases3 sum.inject(2))
      moreover from handle_result [of d' R Replace] b False have "t' k = t1 k"
        by (metis fun_upd_other prod_cases3 sum.inject(2))
      ultimately show ?thesis using ag(1) by simp
    qed
  qed
qed

lemma process_all_agree:
  "s k = t k \<Longrightarrow> process_all R s es = Inr s' \<Longrightarrow> process_all R t es = Inr t' \<Longrightarrow> s' k = t' k"
proof (induction es arbitrary: s t)
  case Nil
  then show ?case by simp
next
  case (Cons e es)
  obtain s1 where s1: "processSSEEvent R s e = Inr s1" using processSSEEvent_returns by blast
  obtain t1 where t1: "processSSEEvent R t e = Inr t1" using processSSEEvent_returns by blast
  from process_agree [where s = s and t = t, OF Cons.prems(1) s1 t1] have "s1 k = t1 k" .
  moreover from Cons.prems s1 t1 have "process_all R s1 es = Inr s'" "process_all R t1 es = Inr t'"
    by simp_all
  ultimately show ?case by (rule Cons.IH)
qed

lemmas demo_run_eval =
  batchUpdateAgentConversationsStore_def processSSEEvent_def handleChatItemEvent_def
  ensurePath_def ensureSection_def addOrUpdateItem_def merged_reasoning_def
  store_task_def put_task_def replace_at_def set_content_def chat_item_def reasoning_record_def
  complete_conversation_def complete_thread_def markAllReasoningComplete_def
  complete_reasoning_item_def is_reasoning_def MARKDOWN_EVENTS_def
  markReasoningComplete_def

lemma demo_mixed_parse: "JSON_parse demo_runtime (demo_reasoning ''a'' False @ js ''b'') = None"
  by (simp add: demo_eval2)

lemma demo_mixed_batch:
  "\<exists>r. batchUpdateAgentConversationsStore demo_runtime demo_old_store (js ''c1'')
          demo_mixed_events True = Inr r
     \<and> main_task r (js ''c1'') (js ''th1'') (js ''t1'') = Some \<lparr>items = [demo_mixed_item]\<rparr>"
  by (simp add: demo_run_eval demo_eval2 demo_old_store_def demo_mixed_events_def
      demo_mixed_item_def Let_def)


lemma batch_result:
  assumes "batchUpdateAgentConversationsStore R s c es clear = Inr r"
  shows "\<exists>d. process_all R (if clear \<and> s c \<noteq> None then s(c := None) else s) es = Inr d
           \<and> (\<forall>k. k \<noteq> c \<longrightarrow> r k = d k)
           \<and> r c = map_option (complete_conversation R) (d c)"
proof -
  obtain d where d: "process_all R (if clear \<and> s c \<noteq> None then s(c := None) else s) es = Inr d"
    using process_all_returns by blast
  with assms have "r = (case d c of None \<Rightarrow> d
      | Some conversation \<Rightarrow> d(c \<mapsto> complete_conversation R conversation))"
    by (simp add: batchUpdateAgentConversationsStore_def Let_def)
  then have "(\<forall>k. k \<noteq> c \<longrightarrow> r k = d k) \<and> r c = map_option (complete_conversation R) (d c)"
    by (cases "d c") auto
  with d show ?thesis by blast
qed

lemma batch_returns: "\<exists>r. batchUpdateAgentConversationsStore R s c es clear = Inr r"
proof -
  obtain d where "process_all R (if clear \<and> s c \<noteq> None then s(c := None) else s) es = Inr d"
    using process_all_returns by blast
  then show ?thesis by (simp add: batchUpdateAgentConversationsStore_def Let_def)
qed

lemma batch_clear_agree:
  assumes "batchUpdateAgentConversationsStore R s c es True = Inr r"
    and "batchUpdateAgentConversationsStore R s2 c es True = Inr r2"
  shows "r c = r2 c"
proof -
  let ?a = "if True \<and> s c \<noteq> None then s(c := None) else s"
  let ?b = "if True \<and> s2 c \<noteq> None then s2(c := None) else s2"
  from batch_result [OF assms(1)] obtain d where
    d: "process_all R ?a es = Inr d" "r c = map_option (complete_conversation R) (d c)" by blast
  from batch_result [OF assms(2)] obtain d2 where
    d2: "process_all R ?b es = Inr d2" "r2 c = map_option (complete_conversation R) (d2 c)" by blast
  have "?a c = ?b c" by auto
  from process_all_agree [where s = ?a and t = ?b, OF this d(1) d2(1)] have "d c = d2 c" .
  with d(2) d2(2) show ?thesis by simp
qed

lemma complete_reasoning_item_parsed:
  assumes "is_reasoning it" "content_of it = Some x" "JSON_parse R x = Some v"
    and "get_prop v (js ''isComplete'') = Inr ic"
  shows "complete_reasoning_item R it =
     (if (case ic of None \<Rightarrow> False | Some w \<Rightarrow> truthy w) then it
      else it\<lparr>payload := AList.update (js ''content'')
             (JStr (JSON_stringify R (JObj (obj_set (js ''isComplete'') (JBool True) (spread v)))))
             (payload it)\<rparr>)"
  using assms
  by (simp add: complete_reasoning_item_def hasContent_def content_str_def parse_json_def
      set_content_existing)

lemma complete_reasoning_item_same:
  assumes "\<not> is_reasoning it \<or> content_of it = None
     \<or> (\<exists>x. content_of it = Some x \<and> (JSON_parse R x = None \<or> JSON_parse R x = Some JNull))"
  shows "complete_reasoning_item R it = it"
  using assms
  by (auto simp: complete_reasoning_item_def hasContent_def content_str_def parse_json_def)

lemma markReasoningComplete_single:
  assumes "content_of it = Some x" "JSON_parse R x = Some v"
  shows "markReasoningComplete R \<lparr>items = [it]\<rparr> (item_id it) =
     Inr \<lparr>items = [it\<lparr>payload := AList.update (js ''content'')
             (JStr (JSON_stringify R (JObj (obj_set (js ''isComplete'') (JBool True) (spread v)))))
             (payload it)\<rparr>]\<rparr>"
proof -
  have f: "findIndex (\<lambda>i. item_id i = item_id it) (items \<lparr>items = [it]\<rparr>) = Some 0" by simp
  have c: "content_of (items \<lparr>items = [it]\<rparr> ! 0) = Some x" using assms(1) by simp
  from markReasoningComplete_found [OF f c, of R] assms(2) show ?thesis by simp
qed

text \<open>
  Claim C6, amended. With \<open>clearHistory\<close> the batch call deletes the
  conversation before replaying the events in order, so the conversation in the result
  is the same whatever the store held before: it comes from the event list alone. After
  the replay the call goes through the tasks of the threads of the conversation, and not
  through its sections: a reasoning item whose content deserializes to a value other than
  \<^verbatim>\<open>null\<close> with an \<open>isComplete\<close> that is not truthy gets the completion
  \<^verbatim>\<open>markReasoningComplete\<close> gives it, the parsed value's properties with \<open>isComplete\<close>
  true; an item of another kind or without content is left as it is, and so is a
  reasoning item whose content does not deserialize or deserializes to \<^verbatim>\<open>null\<close>.

  As stated, with every reasoning item forced complete, the claim fails: a reasoning chunk
  followed by a message chunk with the same item id leaves a reasoning item whose content
  does not deserialize, and the replay skips it (\<open>C6_counterexample\<close>).
\<close>

theorem C6_batch_replay:
  "batchUpdateAgentConversationsStore R s c es True
       = batchUpdateAgentConversationsStore R (s(c := None)) c es True
   \<and> (\<forall>s2 r r2. batchUpdateAgentConversationsStore R s c es True = Inr r
         \<and> batchUpdateAgentConversationsStore R s2 c es True = Inr r2 \<longrightarrow> r c = r2 c)
   \<and> (\<forall>r. batchUpdateAgentConversationsStore R s c es clear = Inr r \<longrightarrow>
        (\<exists>d. process_all R (if clear \<and> s c \<noteq> None then s(c := None) else s) es = Inr d
           \<and> (\<forall>k. k \<noteq> c \<longrightarrow> r k = d k)
           \<and> r c = map_option (complete_conversation R) (d c)))
   \<and> (\<forall>co. sections (complete_conversation R co) = sections co
        \<and> (\<forall>t. co_tasks (complete_conversation R co) t =
              map (\<lambda>(k, task). (k, task\<lparr>items := map (complete_reasoning_item R) (items task)\<rparr>))
                (co_tasks co t)))
   \<and> (\<forall>it x v ic. is_reasoning it \<and> content_of it = Some x \<and> JSON_parse R x = Some v
         \<and> get_prop v (js ''isComplete'') = Inr ic \<longrightarrow>
        (if (case ic of None \<Rightarrow> False | Some w \<Rightarrow> truthy w)
         then complete_reasoning_item R it = it
         else markReasoningComplete R \<lparr>items = [it]\<rparr> (item_id it)
                = Inr \<lparr>items = [complete_reasoning_item R it]\<rparr>
              \<and> complete_reasoning_item R it =
                  it\<lparr>payload := AList.update (js ''content'')
                    (JStr (JSON_stringify R
                       (JObj (obj_set (js ''isComplete'') (JBool True) (spread v)))))
                    (payload it)\<rparr>))
   \<and> (\<forall>it. \<not> is_reasoning it \<or> map_of (payload it) (js ''content'') = None
         \<or> (\<exists>x. content_of it = Some x \<and> (JSON_parse R x = None \<or> JSON_parse R x = Some JNull)) \<longrightarrow>
        complete_reasoning_item R it = it)"
proof (intro conjI allI impI)
  show "batchUpdateAgentConversationsStore R s c es True
       = batchUpdateAgentConversationsStore R (s(c := None)) c es True"
    by (cases "s c") (simp_all add: batchUpdateAgentConversationsStore_def fun_upd_idem)
next
  fix s2 r r2
  assume "batchUpdateAgentConversationsStore R s c es True = Inr r
         \<and> batchUpdateAgentConversationsStore R s2 c es True = Inr r2"
  then show "r c = r2 c" using batch_clear_agree by blast
next
  fix r assume "batchUpdateAgentConversationsStore R s c es clear = Inr r"
  then show "\<exists>d. process_all R (if clear \<and> s c \<noteq> None then s(c := None) else s) es = Inr d
           \<and> (\<forall>k. k \<noteq> c \<longrightarrow> r k = d k)
           \<and> r c = map_option (complete_conversation R) (d c)"
    by (rule batch_result)
next
  fix co show "sections (complete_conversation R co) = sections co"
    by (simp add: complete_conversation_def)
next
  fix co t
  show "co_tasks (complete_conversation R co) t =
              map (\<lambda>(k, task). (k, task\<lparr>items := map (complete_reasoning_item R) (items task)\<rparr>))
                (co_tasks co t)"
    by (simp add: co_tasks_complete markAllReasoningComplete_def)
next
  fix it x v ic
  assume a: "is_reasoning it \<and> content_of it = Some x \<and> JSON_parse R x = Some v
         \<and> get_prop v (js ''isComplete'') = Inr ic"
  then have p: "complete_reasoning_item R it =
     (if (case ic of None \<Rightarrow> False | Some w \<Rightarrow> truthy w) then it
      else it\<lparr>payload := AList.update (js ''content'')
             (JStr (JSON_stringify R (JObj (obj_set (js ''isComplete'') (JBool True) (spread v)))))
             (payload it)\<rparr>)"
    by (simp add: complete_reasoning_item_parsed)
  from a have m: "markReasoningComplete R \<lparr>items = [it]\<rparr> (item_id it) =
     Inr \<lparr>items = [it\<lparr>payload := AList.update (js ''content'')
             (JStr (JSON_stringify R (JObj (obj_set (js ''isComplete'') (JBool True) (spread v)))))
             (payload it)\<rparr>]\<rparr>"
    by (simp add: markReasoningComplete_single)
  show "if (case ic of None \<Rightarrow> False | Some w \<Rightarrow> truthy w)
         then complete_reasoning_item R it = it
         else markReasoningComplete R \<lparr>items = [it]\<rparr> (item_id it)
                = Inr \<lparr>items = [complete_reasoning_item R it]\<rparr>
              \<and> complete_reasoning_item R it =
                  it\<lparr>payload := AList.update (js ''content'')
                    (JStr (JSON_stringify R
                       (JObj (obj_set (js ''isComplete'') (JBool True) (spread v)))))
                    (payload it)\<rparr>"
    using p m by simp
next
  fix it
  assume "\<not> is_reasoning it \<or> map_of (payload it) (js ''content'') = None
         \<or> (\<exists>x. content_of it = Some x \<and> (JSON_parse R x = None \<or> JSON_parse R x = Some JNull))"
  then have "\<not> is_reasoning it \<or> content_of it = None
         \<or> (\<exists>x. content_of it = Some x \<and> (JSON_parse R x = None \<or> JSON_parse R x = Some JNull))"
    by (auto simp: content_of_def str_prop_def)
  then show "complete_reasoning_item R it = it" by (rule complete_reasoning_item_same)
qed

theorem C6_batch_replay_witness:
  "\<exists>r. batchUpdateAgentConversationsStore demo_runtime demo_old_store (js ''c1'')
          demo_reasoning_events True = Inr r
     \<and> r (js ''c1'') \<noteq> None
     \<and> main_task r (js ''c1'') (js ''th1'') (js ''t1'')
         = Some \<lparr>items = [chat_item (Some (js ''reasoning''))
              (data (demo_event ''reasoning'' ''r1'' ''t1'' []))
              [(js ''content'', JStr (demo_reasoning ''foo'' True))]]\<rparr>"
proof -
  have cl: "demo_old_store(js ''c1'' := None) = Map.empty"
    by (simp add: demo_old_store_def demo_store_def)
  from C6_batch_replay [of demo_runtime demo_old_store "js ''c1''" demo_reasoning_events True]
  have eq: "batchUpdateAgentConversationsStore demo_runtime demo_old_store (js ''c1'')
          demo_reasoning_events True
        = batchUpdateAgentConversationsStore demo_runtime Map.empty (js ''c1'')
          demo_reasoning_events True"
    and ag: "\<forall>s2 r r2. batchUpdateAgentConversationsStore demo_runtime demo_old_store (js ''c1'')
           demo_reasoning_events True = Inr r
         \<and> batchUpdateAgentConversationsStore demo_runtime s2 (js ''c1'')
           demo_reasoning_events True = Inr r2 \<longrightarrow> r (js ''c1'') = r2 (js ''c1'')"
    unfolding cl by blast+
  have e: "\<exists>r0. batchUpdateAgentConversationsStore demo_runtime Map.empty (js ''c1'')
          demo_reasoning_events True = Inr r0
     \<and> main_task r0 (js ''c1'') (js ''th1'') (js ''t1'')
         = Some \<lparr>items = [chat_item (Some (js ''reasoning''))
              (data (demo_event ''reasoning'' ''r1'' ''t1'' []))
              [(js ''content'', JStr (demo_reasoning ''foo'' True))]]\<rparr>"
    by (simp add: demo_run_eval demo_eval2 demo_reasoning_events_def Let_def)
  then obtain r0 where
    r0: "batchUpdateAgentConversationsStore demo_runtime Map.empty (js ''c1'')
          demo_reasoning_events True = Inr r0"
     "main_task r0 (js ''c1'') (js ''th1'') (js ''t1'')
         = Some \<lparr>items = [chat_item (Some (js ''reasoning''))
              (data (demo_event ''reasoning'' ''r1'' ''t1'' []))
              [(js ''content'', JStr (demo_reasoning ''foo'' True))]]\<rparr>"
    by blast
  from eq r0(1) have r: "batchUpdateAgentConversationsStore demo_runtime demo_old_store (js ''c1'')
          demo_reasoning_events True = Inr r0" by simp
  from ag r r0(1) have "r0 (js ''c1'') = r0 (js ''c1'')" by blast
  with r0(2) have "main_task r0 (js ''c1'') (js ''th1'') (js ''t1'')
         = Some \<lparr>items = [chat_item (Some (js ''reasoning''))
              (data (demo_event ''reasoning'' ''r1'' ''t1'' []))
              [(js ''content'', JStr (demo_reasoning ''foo'' True))]]\<rparr>"
    by (simp add: main_task_def)
  moreover from this have "r0 (js ''c1'') \<noteq> None"
    by (auto simp: main_task_def split: option.splits)
  ultimately show ?thesis using r by blast
qed

theorem C6_counterexample:
  "demo_old_store (js ''c1'') \<noteq> None
   \<and> (\<exists>r. batchUpdateAgentConversationsStore demo_runtime demo_old_store (js ''c1'')
          demo_mixed_events True = Inr r
        \<and> main_task r (js ''c1'') (js ''th1'') (js ''t1'') = Some \<lparr>items = [demo_mixed_item]\<rparr>)
   \<and> component_type demo_mixed_item = Some (js ''reasoning'')
   \<and> content_of demo_mixed_item = Some (demo_reasoning ''a'' False @ js ''b'')
   \<and> JSON_parse demo_runtime (demo_reasoning ''a'' False @ js ''b'') = None
   \<and> markReasoningComplete demo_runtime \<lparr>items = [demo_mixed_item]\<rparr> (item_id demo_mixed_item)
       \<noteq> Inr \<lparr>items = [demo_mixed_item]\<rparr>"
proof -
  have 1: "demo_old_store (js ''c1'') \<noteq> None"
    by (simp add: demo_old_store_def demo_store_def)
  have 2: "component_type demo_mixed_item = Some (js ''reasoning'')"
    "content_of demo_mixed_item = Some (demo_reasoning ''a'' False @ js ''b'')"
    by (simp_all add: demo_mixed_item_def content_of_def str_prop_def)
  have 3: "markReasoningComplete demo_runtime \<lparr>items = [demo_mixed_item]\<rparr> (item_id demo_mixed_item)
       \<noteq> Inr \<lparr>items = [demo_mixed_item]\<rparr>"
    by (simp add: demo_run_eval demo_eval2 demo_mixed_item_def)
  from 1 2 3 demo_mixed_batch demo_mixed_parse show ?thesis by blast
qed


section \<open>Unknown event kinds\<close>

text \<open>
  Every label of the switch leads through the path resolver, so an event of a recognized
  kind leaves a conversation under its id in the store.
\<close>

lemma handle_creates:
  assumes "handleChatItemEvent R s d ev = Inr s'"
  shows "s' (conversation_id d) \<noteq> None"
proof -
  from handle_result [of d R ev] obtain X where
    X: "\<And>s co th task. snd (ensurePath s d) = (co, th, task) \<Longrightarrow>
       handleChatItemEvent R s d ev = Inr (s(conversation_id d \<mapsto> X co th task))"
    by blast
  obtain co th task where "snd (ensurePath s d) = (co, th, task)" by (metis prod_cases3)
  from X [OF this] assms show ?thesis by auto
qed

lemma recognized_creates:
  assumes "event e \<in> set RECOGNIZED_EVENTS" and "processSSEEvent R s e = Inr s'"
  shows "s' (conversation_id (data e)) \<noteq> None"
proof -
  obtain s1 co th task where ep: "ensurePath s (data e) = (s1, co, th, task)"
    by (metis prod_cases4)
  obtain task' where m: "markReasoningComplete R task (item_id (data e)) = Inr task'"
    using markReasoningComplete_returns by blast
  have h: "s'' (conversation_id (data e)) \<noteq> None"
    if "handleChatItemEvent R u (chat_item c (data e) p) ev = Inr s''" for u c p ev s''
    using handle_creates [OF that] by simp
  from assms(2) ep m consider
      (item) u c p ev where "handleChatItemEvent R u (chat_item c (data e) p) ev = Inr s'"
    | (completed) "s' = store_task s1 co th (data e) task'"
    | (noop) "event e \<notin> set RECOGNIZED_EVENTS"
    unfolding processSSEEvent_def Let_def RECOGNIZED_EVENTS_def
    by (simp split: if_splits)
  then show ?thesis
  proof cases
    case item
    then show ?thesis by (rule h)
  next
    case completed
    then show ?thesis by (simp add: store_task_def)
  next
    case noop
    with assms(1) show ?thesis by simp
  qed
qed

text \<open>
  Claim C9. An event whose kind is none of the labels of the switch leaves the store as
  it is: the update returns the store it was given, and raises nothing. The labels are
  exactly the kinds that do anything: a store the update returns on an event of any of
  them holds the event's conversation, whatever the store was.
\<close>

theorem C9_unknown_kind_noop:
  "(event sseData \<notin> set RECOGNIZED_EVENTS \<longrightarrow>
      updateAgentConversationsStore R store sseData = Inr store)
   \<and> (event sseData \<in> set RECOGNIZED_EVENTS \<longrightarrow>
      (\<forall>store'. updateAgentConversationsStore R store sseData = Inr store' \<longrightarrow>
         store' (conversation_id (data sseData)) \<noteq> None))"
proof (intro conjI impI allI)
  assume "event sseData \<notin> set RECOGNIZED_EVENTS"
  then show "updateAgentConversationsStore R store sseData = Inr store"
    by (simp add: updateAgentConversationsStore_def processSSEEvent_def RECOGNIZED_EVENTS_def
        Let_def)
next
  fix store'
  assume a: "event sseData \<in> set RECOGNIZED_EVENTS"
    and "updateAgentConversationsStore R store sseData = Inr store'"
  then have r: "processSSEEvent R store sseData = Inr store'"
    by (simp add: updateAgentConversationsStore_def)
  from recognized_creates [OF a r]
  show "store' (conversation_id (data sseData)) \<noteq> None" .
qed

theorem C9_unknown_kind_noop_witness:
  "js ''heartbeat'' \<notin> set RECOGNIZED_EVENTS
   \<and> updateAgentConversationsStore demo_runtime demo_old_store (demo_event ''heartbeat'' ''i1'' ''t1'' [])
       = Inr demo_old_store
   \<and> js ''message'' \<in> set RECOGNIZED_EVENTS
   \<and> (\<exists>store'. updateAgentConversationsStore demo_runtime Map.empty
          (demo_event ''message'' ''i1'' ''t1'' []) = Inr store'
        \<and> store' (js ''c1'') \<noteq> None)"
proof -
  have r: "\<exists>store'. updateAgentConversationsStore demo_runtime Map.empty
          (demo_event ''message'' ''i1'' ''t1'' []) = Inr store'"
    by (simp add: updateAgentConversationsStore_def processSSEEvent_returns)
  from r C9_unknown_kind_noop [of "demo_event ''heartbeat'' ''i1'' ''t1'' []" demo_runtime demo_old_store]
    C9_unknown_kind_noop [of "demo_event ''message'' ''i1'' ''t1'' []" demo_runtime Map.empty]
  show ?thesis
    by (auto simp: RECOGNIZED_EVENTS_def MARKDOWN_EVENTS_def demo_event_def)
qed


section \<open>Step labels\<close>

lemma lazy_chars_numeral [simp]:
  "lazy_chars cont (numeral k) acc [] = None"
  "lazy_chars cont (numeral k) acc (c # cs) =
     (if name_char c
      then (case cont cs of
              Some r \<Rightarrow> Some (acc @ [c], r)
            | None \<Rightarrow> lazy_chars cont (pred_numeral k) (acc @ [c]) cs)
      else None)"
  by (simp_all add: numeral_eq_Suc)

lemma lazy_chars_one [simp]:
  "lazy_chars cont 1 acc [] = None"
  "lazy_chars cont 1 acc (c # cs) =
     (if name_char c
      then (case cont cs of
              Some r \<Rightarrow> Some (acc @ [c], r)
            | None \<Rightarrow> lazy_chars cont 0 (acc @ [c]) cs)
      else None)"
  by (simp_all add: One_nat_def del: One_nat_def [symmetric])

lemmas heuristic_eval =
  extractCompanyNameFromText_def trim_def is_space_def name_start_def name_char_def
  code_tail_def suffix_tail_def COMPANY_SUFFIXES_def news_query_marker_def
  NEWS_QUERY_MARKERS_def

lemma demo_subject: "extractCompanyNameFromText (js ''Tesla (123456)'') = Some (js ''Tesla'')"
  by (simp add: heuristic_eval js_def is_digit_def starts_with_def)

lemma demo_no_news: "\<not> news_query_marker (js ''Tesla (123456)'')"
  by (simp add: heuristic_eval js_def starts_with_def)

lemmas tool_eval =
  detectStepTemplateInThread_def user_contents_def getThreadItems_def getPlanningToolItems_def
  isPlanningAnchorTool_def getToolNameFromItem_def getStepLabelFromItem_def
  shouldApplyAnalysisStepTemplate_def getToolStepOrderInThread_def detectCompanyNameInThread_def
  buildPlannedStepLabel_def title_at_def task_title_def label_val_def
  ANALYSIS_OVERFLOW_STEP_TITLE_def

lemma demo_plan_run:
  "\<exists>s. process_all demo_runtime Map.empty demo_plan_events = Inr s
     \<and> main_task s (js ''c1'') (js ''th1'') (js ''t1'') =
         Some \<lparr>items =
           [chat_item (Some (js ''markdown'')) (data (demo_user_message ''Tesla (123456)''))
              [(js ''content'', JStr (js ''Tesla (123456)''))],
            demo_labelled ''k1'' ''generate_execution_plan'' (ANALYSIS_STEP_TITLES ! 0),
            demo_labelled ''k2'' ''fetch_us_filing_sections''
              (ANALYSIS_STEP_TITLES ! 1 @ [65288] @ js ''Tesla'' @ [65289])]\<rparr>"
  by (simp add: demo_plan_events_def demo_user_message_def demo_tool_event_def demo_labelled_def
      demo_run_eval tool_eval demo_eval2 demo_subject demo_no_news Let_def
      heuristic_eval)

lemma lazy_chars_prefix:
  "lazy_chars cont n acc s = Some (g, r) \<Longrightarrow> \<exists>rest. g = acc @ rest"
proof (induction cont n acc s rule: lazy_chars.induct)
  case (1 cont acc s)
  then show ?case by simp
next
  case (2 cont n acc)
  then show ?case by simp
next
  case (3 cont n acc c cs)
  show ?case
  proof (cases "cont cs")
    case None
    with 3 show ?thesis by (auto split: if_splits)
  next
    case (Some a)
    with 3 show ?thesis by (auto split: if_splits)
  qed
qed

lemma name_search_start:
  "name_search cont s = Some (g, r) \<Longrightarrow> g \<noteq> [] \<and> name_start (hd g)"
proof (induction s)
  case Nil
  then show ?case by simp
next
  case (Cons c cs)
  show ?case
  proof (cases "name_start c \<and> lazy_chars cont 30 [c] cs \<noteq> None")
    case True
    with Cons.prems have "lazy_chars cont 30 [c] cs = Some (g, r)" by auto
    from lazy_chars_prefix [OF this] True show ?thesis by auto
  next
    case False
    with Cons.prems have "name_search cont cs = Some (g, r)"
      by (auto split: if_splits option.splits)
    then show ?thesis by (rule Cons.IH)
  qed
qed

lemma name_start_not_space: "name_start c \<Longrightarrow> \<not> is_space c"
  by (auto simp: name_start_def is_space_def)

lemma trim_nonempty:
  assumes "g \<noteq> []" "\<not> is_space (hd g)"
  shows "trim g \<noteq> []"
proof -
  from assms obtain c cs where g: "g = c # cs" "\<not> is_space c" by (cases g) auto
  then have "dropWhile is_space g = c # cs" by simp
  then have "c \<in> set (rev (dropWhile is_space g))" by simp
  with g(2) have "dropWhile is_space (rev (dropWhile is_space g)) \<noteq> []"
    by (metis dropWhile_eq_Nil_conv)
  then show ?thesis by (simp add: trim_def)
qed

lemma extractCompanyNameFromText_nonempty:
  assumes "extractCompanyNameFromText text0 = Some name"
  shows "name \<noteq> []"
proof -
  define n where "n = trim text0"
  from assms have body:
    "(case name_search code_tail n of
        Some (g, u) \<Rightarrow> Some (trim g)
      | None \<Rightarrow>
          (case name_search suffix_tail n of
             Some (g, m) \<Rightarrow> Some (trim (g @ m))
           | None \<Rightarrow> None)) = Some name"
    unfolding extractCompanyNameFromText_def Let_def n_def [symmetric]
    by (cases "n = []") simp_all
  show ?thesis
  proof (cases "name_search code_tail n")
    case (Some a)
    obtain g r where a: "a = (g, r)" by (cases a)
    from body Some a have nm: "name = trim g" by simp
    from name_search_start [of code_tail n g r] Some a have "g \<noteq> []" "name_start (hd g)"
      by simp_all
    with nm show ?thesis by (simp add: trim_nonempty name_start_not_space)
  next
    case None
    show ?thesis
    proof (cases "name_search suffix_tail n")
      case n2: None
      with None body show ?thesis by simp
    next
      case (Some a)
      obtain g m where a: "a = (g, m)" by (cases a)
      from body None Some a have nm: "name = trim (g @ m)" by simp
      from name_search_start [of suffix_tail n g m] Some a have "g \<noteq> []" "name_start (hd g)"
        by simp_all
      then have "g @ m \<noteq> []" "name_start (hd (g @ m))" by simp_all
      with nm show ?thesis by (simp add: trim_nonempty name_start_not_space)
    qed
  qed
qed

lemma first_company_nonempty: "first_company cs = Some name \<Longrightarrow> name \<noteq> []"
  by (induction cs) (auto split: option.splits if_splits)

lemma detectCompanyNameInThread_nonempty:
  "detectCompanyNameInThread thread fallback = Some name \<Longrightarrow> name \<noteq> []"
  by (auto simp: detectCompanyNameInThread_def split: option.splits if_splits
      dest: first_company_nonempty extractCompanyNameFromText_nonempty)

lemma title_at_mem: "title_at xs n = Some t \<Longrightarrow> t \<in> set xs"
  by (auto simp: title_at_def split: if_splits)

lemma analysis_title_nonempty: "analysis_title n \<noteq> []"
proof (cases "title_at ANALYSIS_STEP_TITLES n")
  case None
  then show ?thesis by (simp add: analysis_title_def ANALYSIS_OVERFLOW_STEP_TITLE_def)
next
  case (Some t)
  from title_at_mem [OF Some] have "t \<noteq> []"
    by (auto simp: ANALYSIS_STEP_TITLES_def)
  with Some show ?thesis by (simp add: analysis_title_def)
qed

lemma news_titles_nonempty: "title_at NEWS_STEP_TITLES n = Some t \<Longrightarrow> t \<noteq> []"
  by (auto dest!: title_at_mem simp: NEWS_STEP_TITLES_def)

lemma label_analysis:
  "buildPlannedStepLabel n companyName Analysis =
     Some (case companyName of
             Some name \<Rightarrow> if 2 \<le> n \<and> name \<noteq> []
                          then analysis_title n @ [65288] @ name @ [65289]
                          else analysis_title n
           | None \<Rightarrow> analysis_title n)"
  using analysis_title_nonempty [of n]
  by (auto simp: buildPlannedStepLabel_def analysis_title_def Let_def split: option.splits)

lemma label_news: "buildPlannedStepLabel n companyName News = title_at NEWS_STEP_TITLES n"
  using news_titles_nonempty [of n]
  by (auto simp: buildPlannedStepLabel_def Let_def split: option.splits)

text \<open>
  Claim C5. There is an input, a user message that names a subject and has no news
  marker, then the start and the completion of the plan-generation tool call, then the
  start of another tool call, on which the third tool-call event gets as its step label
  the second analysis title followed by the subject in fullwidth parentheses. In general,
  for the analysis template a step ordinal of at least 2 and a subject name (which is
  never empty when the subject detection finds one) give the looked-up title followed by
  the subject in fullwidth parentheses; a news title never carries the subject.
\<close>

theorem C5_step_label:
  "(\<exists>s. \<not> news_query_marker (js ''Tesla (123456)'')
      \<and> extractCompanyNameFromText (js ''Tesla (123456)'') = Some (js ''Tesla'')
      \<and> process_all demo_runtime Map.empty demo_plan_events = Inr s
      \<and> main_task s (js ''c1'') (js ''th1'') (js ''t1'') =
         Some \<lparr>items =
           [chat_item (Some (js ''markdown'')) (data (demo_user_message ''Tesla (123456)''))
              [(js ''content'', JStr (js ''Tesla (123456)''))],
            demo_labelled ''k1'' ''generate_execution_plan'' (ANALYSIS_STEP_TITLES ! 0),
            demo_labelled ''k2'' ''fetch_us_filing_sections''
              (ANALYSIS_STEP_TITLES ! 1 @ [65288] @ js ''Tesla'' @ [65289])]\<rparr>)
   \<and> (2 \<le> n \<and> name \<noteq> [] \<longrightarrow>
        buildPlannedStepLabel n (Some name) Analysis
          = Some (analysis_title n @ [65288] @ name @ [65289]))
   \<and> (2 \<le> n \<and> detectCompanyNameInThread thread fallback = Some name \<longrightarrow>
        buildPlannedStepLabel n (detectCompanyNameInThread thread fallback) Analysis
          = Some (analysis_title n @ [65288] @ name @ [65289]))
   \<and> buildPlannedStepLabel n companyName News = title_at NEWS_STEP_TITLES n"
proof (intro conjI impI)
  show "\<exists>s. \<not> news_query_marker (js ''Tesla (123456)'')
      \<and> extractCompanyNameFromText (js ''Tesla (123456)'') = Some (js ''Tesla'')
      \<and> process_all demo_runtime Map.empty demo_plan_events = Inr s
      \<and> main_task s (js ''c1'') (js ''th1'') (js ''t1'') =
         Some \<lparr>items =
           [chat_item (Some (js ''markdown'')) (data (demo_user_message ''Tesla (123456)''))
              [(js ''content'', JStr (js ''Tesla (123456)''))],
            demo_labelled ''k1'' ''generate_execution_plan'' (ANALYSIS_STEP_TITLES ! 0),
            demo_labelled ''k2'' ''fetch_us_filing_sections''
              (ANALYSIS_STEP_TITLES ! 1 @ [65288] @ js ''Tesla'' @ [65289])]\<rparr>"
    using demo_plan_run demo_subject demo_no_news by blast
next
  assume "2 \<le> n \<and> name \<noteq> []"
  then show "buildPlannedStepLabel n (Some name) Analysis
          = Some (analysis_title n @ [65288] @ name @ [65289])"
    by (simp add: label_analysis)
next
  assume a: "2 \<le> n \<and> detectCompanyNameInThread thread fallback = Some name"
  then have "name \<noteq> []" by (auto dest: detectCompanyNameInThread_nonempty)
  with a show "buildPlannedStepLabel n (detectCompanyNameInThread thread fallback) Analysis
          = Some (analysis_title n @ [65288] @ name @ [65289])"
    by (simp add: label_analysis)
next
  show "buildPlannedStepLabel n companyName News = title_at NEWS_STEP_TITLES n"
    by (rule label_news)
qed

theorem C5_step_label_witness:
  "(2::nat) \<le> 2 \<and> js ''Tesla'' \<noteq> []
   \<and> buildPlannedStepLabel 2 (Some (js ''Tesla'')) Analysis
       = Some (ANALYSIS_STEP_TITLES ! 1 @ [65288] @ js ''Tesla'' @ [65289])
   \<and> buildPlannedStepLabel 9 (Some (js ''Tesla'')) Analysis
       = Some (ANALYSIS_OVERFLOW_STEP_TITLE @ [65288] @ js ''Tesla'' @ [65289])
   \<and> buildPlannedStepLabel 2 (Some (js ''Tesla'')) News = Some (NEWS_STEP_TITLES ! 1)"
  using C5_step_label [where n = 2 and name = "js ''Tesla''" and companyName = "Some (js ''Tesla'')"
      and thread = demo_thread and fallback = None]
    C5_step_label [where n = 9 and name = "js ''Tesla''" and companyName = "Some (js ''Tesla'')"
      and thread = demo_thread and fallback = None]
  by (simp add: analysis_title_def title_at_def js_def ANALYSIS_STEP_TITLES_def
      NEWS_STEP_TITLES_def)

end
